theory Spec2Isabelle
  imports Main "HOL-Library.Sublist"
begin

section \<open>JavaScript strings and numbers\<close>

text \<open>
  Strings are lists of characters over ASCII. Numbers are mathematical integers, where the
  code has IEEE doubles: every number the modelled functions compute is an integer, and a
  double holds an integer exactly when its absolute value is at most \<open>2^53\<close>. Beyond that
  bound the code rounds where the model does not, so a statement that rests on the value
  of a parsed number, or on its digits, carries the bound as a hypothesis; a statement
  that only compares a parsed number with \<open>-1\<close>, or asks whether it parsed at all, holds
  of the doubles as well, since rounding keeps the sign and the order.
\<close>

text \<open>\<^verbatim>\<open>if (s)\<close> on a value of type \<^verbatim>\<open>string | undefined\<close>: \<^verbatim>\<open>undefined\<close> and the empty
  string are falsy.\<close>

definition truthy :: "string option \<Rightarrow> bool" where
  "truthy s = (case s of None \<Rightarrow> False | Some t \<Rightarrow> t \<noteq> [])"

text \<open>\<^verbatim>\<open>parts.join(sep)\<close>.\<close>

fun join :: "string \<Rightarrow> string list \<Rightarrow> string" where
  "join sep [] = []"
| "join sep [x] = x"
| "join sep (x # y # ys) = x @ sep @ join sep (y # ys)"

text \<open>\<^verbatim>\<open>s.startsWith(p)\<close>, \<^verbatim>\<open>s.substring(k)\<close> (for \<open>k\<close> not negative) and \<^verbatim>\<open>s.includes(p)\<close>.\<close>

definition startsWith :: "string \<Rightarrow> string \<Rightarrow> bool" where
  "startsWith s p = (take (length p) s = p)"

definition substring :: "string \<Rightarrow> nat \<Rightarrow> string" where
  "substring s k = drop k s"

fun includesStr :: "string \<Rightarrow> string \<Rightarrow> bool" where
  "includesStr [] p = (p = [])"
| "includesStr (c # cs) p = (startsWith (c # cs) p \<or> includesStr cs p)"

text \<open>White space as \<^verbatim>\<open>parseInt\<close>, \<^verbatim>\<open>trim\<close> and the regular-expression class \<^verbatim>\<open>\s\<close> see it
  (within ASCII): tab, line feed, vertical tab, form feed, carriage return, space.\<close>

definition isWhiteSpace :: "char \<Rightarrow> bool" where
  "isWhiteSpace c = (c \<in> set [CHR 0x09, CHR 0x0A, CHR 0x0B, CHR 0x0C, CHR 0x0D, CHR 0x20])"

definition isDigit :: "char \<Rightarrow> bool" where
  "isDigit c = (c \<in> set ''0123456789'')"

fun indexOf :: "'a \<Rightarrow> 'a list \<Rightarrow> nat option" where
  "indexOf x [] = None"
| "indexOf x (y # ys) = (if x = y then Some 0 else map_option Suc (indexOf x ys))"

text \<open>The value of a character as a digit of \<^verbatim>\<open>parseInt\<close>: \<open>0\<close> to \<open>9\<close>, then the letters
  in either case.\<close>

definition digitVal :: "char \<Rightarrow> nat option" where
  "digitVal c = (case indexOf c ''0123456789abcdefghijklmnopqrstuvwxyz'' of
       Some d \<Rightarrow> Some d
     | None \<Rightarrow> map_option (\<lambda>d. d + 10) (indexOf c ''ABCDEFGHIJKLMNOPQRSTUVWXYZ''))"

definition isRadixDigit :: "nat \<Rightarrow> char \<Rightarrow> bool" where
  "isRadixDigit r c = (case digitVal c of None \<Rightarrow> False | Some d \<Rightarrow> d < r)"

text \<open>
  \<^verbatim>\<open>parseInt(string, radix)\<close> of ECMAScript for a radix in \<open>2 .. 36\<close>: leading white space is
  skipped, one sign is read, for radix 16 a prefix \<^verbatim>\<open>0x\<close> or \<^verbatim>\<open>0X\<close> is skipped, the longest
  run of digits of the radix is read, and what follows is ignored. No digit at all gives
  \<^verbatim>\<open>NaN\<close>, here \<open>None\<close>. The result is the integer that the digits denote; the code
  returns that integer rounded to a double, which is the same number when its absolute
  value is at most \<open>2^53\<close> and may differ beyond (\<^verbatim>\<open>parseInt('9007199254740993', 10)\<close> is
  \<open>9007199254740992\<close>).
\<close>

definition parseInt :: "string \<Rightarrow> nat \<Rightarrow> int option" where
  "parseInt str radix =
     (let s = dropWhile isWhiteSpace str;
          sign = (if s \<noteq> [] \<and> hd s = CHR ''-'' then - 1 else 1);
          s1 = (if s \<noteq> [] \<and> (hd s = CHR ''+'' \<or> hd s = CHR ''-'') then tl s else s);
          s2 = (if radix = 16 \<and> (take 2 s1 = ''0x'' \<or> take 2 s1 = ''0X'') then drop 2 s1 else s1);
          z = takeWhile (isRadixDigit radix) s2
      in if z = [] then None
         else Some (sign * int (foldl (\<lambda>a c. a * radix + the (digitVal c)) 0 z)))"

text \<open>An integer inside a template literal: the decimal digits, with a minus sign for a
  negative one. The code prints so the integers of absolute value below \<open>10^21\<close>, and the
  others with an exponent (\<^verbatim>\<open>1e+21\<close>); the function is used on integers of absolute value
  at most \<open>2^53\<close> only.\<close>

fun showNat :: "nat \<Rightarrow> string" where
  "showNat n = (if n < 10 then [''0123456789'' ! n]
                else showNat (n div 10) @ [''0123456789'' ! (n mod 10)])"

declare showNat.simps [simp del]

definition showInt :: "int \<Rightarrow> string" where
  "showInt i = (if i < 0 then CHR ''-'' # showNat (nat (- i)) else showNat (nat i))"

text \<open>\<^verbatim>\<open>s.toLowerCase()\<close> on ASCII.\<close>

definition lowerChar :: "char \<Rightarrow> char" where
  "lowerChar c = (case indexOf c ''ABCDEFGHIJKLMNOPQRSTUVWXYZ'' of
       None \<Rightarrow> c | Some i \<Rightarrow> ''abcdefghijklmnopqrstuvwxyz'' ! i)"

definition toLowerCase :: "string \<Rightarrow> string" where
  "toLowerCase s = map lowerChar s"

text \<open>The single quote, as a string.\<close>

definition sq :: string where
  "sq = [CHR 0x27]"

text \<open>The line feed, as a string.\<close>

definition lf :: string where
  "lf = [CHR 0x0A]"

text \<open>\<^verbatim>\<open>s.trim()\<close>.\<close>

definition trim :: "string \<Rightarrow> string" where
  "trim s = rev (dropWhile isWhiteSpace (rev (dropWhile isWhiteSpace s)))"


section \<open>The syntax tree\<close>

text \<open>
  A node of the syntax tree with the properties the modelled code reads: \<open>ntype\<close> is
  \<^verbatim>\<open>$type\<close>; \<open>element\<close> is the owned element of a membership; \<open>elements\<close> is the array
  \<^verbatim>\<open>elements\<close> of a package body or of a type or feature body, and the array
  \<^verbatim>\<open>namespaceElements\<close> of the root; an array that a node does not have is the empty list
  (the parser creates every array property). \<open>cstText\<close> is \<^verbatim>\<open>$cstNode.text\<close>. A qualified
  name is the list of its parts.
\<close>

datatype node = Node (ntype: string) (name: "string option") (visibility: "string option")
  (element: "node option") (elements: "node list") (body: "node option")
  (specializations: "string list list") (isAbstract: bool) (cstText: string)

text \<open>Nodes for the examples: a membership with no visibility that owns an element, an
  element with a name, one without, and a node with members.\<close>

definition owning :: "node \<Rightarrow> node" where
  "owning e = Node ''OwningMembership'' None None (Some e) [] None [] False []"

definition named :: "string \<Rightarrow> string \<Rightarrow> node" where
  "named t n = Node t (Some n) None None [] None [] False []"

definition anonymous :: "string \<Rightarrow> node" where
  "anonymous t = Node t None None None [] None [] False []"

definition parent :: "string \<Rightarrow> string option \<Rightarrow> node list \<Rightarrow> node" where
  "parent t n ms = Node t n None None ms None [] False []"

text \<open>A membership with a visibility, and a definition with one specialization.\<close>

definition memberWith :: "string \<Rightarrow> node \<Rightarrow> node" where
  "memberWith v e = Node ''OwningMembership'' None (Some v) (Some e) [] None [] False []"

definition specializing :: "string \<Rightarrow> string \<Rightarrow> string list \<Rightarrow> node" where
  "specializing t n qn = Node t (Some n) None None [] None [qn] False []"

text \<open>A description of the index: the name it is entered under, the type of its node and
  the position of the node in the document.\<close>

record description =
  dname :: string
  dtype :: string
  dpath :: "nat list"

section \<open>Scope computation (language/scope-computation)\<close>

definition isOwningMembership :: "node \<Rightarrow> bool" where
  "isOwningMembership n = (ntype n = ''OwningMembership'')"

definition isPackageBody :: "node \<Rightarrow> bool" where
  "isPackageBody n = (ntype n = ''PackageBody'')"

definition isTypeBodyRule :: "node \<Rightarrow> bool" where
  "isTypeBodyRule n = (ntype n = ''TypeBodyRule'')"

definition isFeatureBodyRule :: "node \<Rightarrow> bool" where
  "isFeatureBodyRule n = (ntype n = ''FeatureBodyRule'')"

definition isRootNamespace :: "node \<Rightarrow> bool" where
  "isRootNamespace n = (ntype n = ''RootNamespace'')"

definition getElementName :: "node \<Rightarrow> string option" where
  "getElementName el = name el"

definition createDescription :: "node \<Rightarrow> string \<Rightarrow> nat list \<Rightarrow> description" where
  "createDescription el nm path = \<lparr>dname = nm, dtype = ntype el, dpath = path\<rparr>"


text \<open>
  A loop over an array of members runs over the members with their positions
  (\<open>enumerate 0\<close>); \<^verbatim>\<open>filter\<close> keeps the nodes it keeps where they are in the tree, so each
  keeps its position.
\<close>

definition members :: "node \<Rightarrow> (nat \<times> node) list" where
  "members container = enumerate 0 (elements container)"

definition owningMembers :: "node \<Rightarrow> (nat \<times> node) list" where
  "owningMembers container = filter (\<lambda>(i, m). isOwningMembership m) (members container)"

text \<open>The sizes of what the traversals recur on, for their termination.\<close>

lemma size_list_filter_le: "size_list f (filter P xs) \<le> size_list f xs"
  by (induction xs) auto

lemma size_list_enumerate: "size_list (\<lambda>p. size (snd p)) (enumerate n xs) = size_list size xs"
  by (induction xs arbitrary: n) auto

lemma size_members: "2 * size_list (\<lambda>p. size (snd p)) (members c) < Suc (2 * size c)"
  by (cases c) (simp add: members_def size_list_enumerate)

lemma size_owningMembers: "2 * size_list (\<lambda>p. size (snd p)) (owningMembers c) < Suc (2 * size c)"
  using size_members [of c] size_list_filter_le [of "\<lambda>p. size (snd p)" _ "members c"]
  unfolding owningMembers_def by (metis le_less_trans mult_le_mono2)

lemma size_element: "element el = Some x \<Longrightarrow> size x < size el"
  by (cases el) auto

lemma size_element_member: "element el = Some x \<Longrightarrow> 2 * size x < Suc (2 * size el + k)"
  by (cases el) auto

text \<open>
  The traversal of the exports. The array \<^verbatim>\<open>exports\<close> that the source fills is the list
  that is returned, in the order of the pushes. \<open>path\<close> is the position of the element that
  a membership owns, the indices of the members passed from the root down: it stands for
  the node that \<^verbatim>\<open>createDescription\<close> records.
\<close>

function processNamespaceElement :: "node \<Rightarrow> string list \<Rightarrow> nat list \<Rightarrow> description list"
and processDefinitionOrUsage :: "node \<Rightarrow> string list \<Rightarrow> nat list \<Rightarrow> description list"
and processNestedElements :: "node \<Rightarrow> string list \<Rightarrow> nat list \<Rightarrow> description list"
and processEach :: "(nat \<times> node) list \<Rightarrow> string list \<Rightarrow> nat list \<Rightarrow> description list"
where
  "processNamespaceElement el qualifiedNameParts path =
     (if isOwningMembership el then
        if visibility el = Some ''private'' \<or> visibility el = Some ''protected'' then []
        else (case element el of
                None \<Rightarrow> []
              | Some innerElement \<Rightarrow> processDefinitionOrUsage innerElement qualifiedNameParts path)
      else [])"
| "processDefinitionOrUsage el qualifiedNameParts path =
     (if truthy (getElementName el) then
        let nm = the (getElementName el);
            newQualifiedParts = qualifiedNameParts @ [nm];
            qualifiedName = join ''::'' newQualifiedParts
        in [createDescription el nm path]
           @ (if length qualifiedNameParts > 0
              then [createDescription el qualifiedName path] else [])
           @ processNestedElements el newQualifiedParts path
      else [])"
| "processNestedElements container qualifiedNameParts path =
     (if isPackageBody container then processEach (members container) qualifiedNameParts path
      else if isTypeBodyRule container \<or> isFeatureBodyRule container
      then processEach (owningMembers container) qualifiedNameParts path
      else processEach (owningMembers container) qualifiedNameParts path)"
| "processEach [] qualifiedNameParts path = []"
| "processEach ((i, m) # ms) qualifiedNameParts path =
     processNamespaceElement m qualifiedNameParts (path @ [i])
     @ processEach ms qualifiedNameParts path"
  by pat_completeness auto

termination
  by (relation "measure (\<lambda>x. case x of
          Inl (Inl (el, _)) \<Rightarrow> 2 * size el + 1
        | Inl (Inr (el, _)) \<Rightarrow> 2 * size el + 2
        | Inr (Inl (el, _)) \<Rightarrow> 2 * size el + 1
        | Inr (Inr (ms, _)) \<Rightarrow> 2 * size_list (\<lambda>p. size (snd p)) ms)")
     (auto dest: size_element simp: size_members size_owningMembers)

text \<open>\<^verbatim>\<open>computeExports\<close>: the root's \<^verbatim>\<open>namespaceElements\<close> are the \<open>elements\<close> of the node
  of type \<^verbatim>\<open>RootNamespace\<close>.\<close>

definition computeExports :: "node \<Rightarrow> description list" where
  "computeExports root = processEach (members root) [] []"

text \<open>
  The traversal of the local scopes. The multimap from containers to descriptions is the
  list of its entries, in the order they are added; a container is given by its position.
\<close>

function processLocalScopes :: "nat list \<Rightarrow> (nat \<times> node) list \<Rightarrow> (nat list \<times> description) list"
and processNestedLocalScopes :: "node \<Rightarrow> nat list \<Rightarrow> (nat list \<times> description) list"
where
  "processLocalScopes container [] = []"
| "processLocalScopes container ((i, m) # ms) =
     (if isOwningMembership m \<and> element m \<noteq> None then
        let innerElement = the (element m);
            nm = getElementName innerElement
        in if truthy nm then
             (container, createDescription innerElement (the nm) (container @ [i]))
             # processNestedLocalScopes innerElement (container @ [i])
           else []
      else [])
     @ processLocalScopes container ms"
| "processNestedLocalScopes container path =
     (if isPackageBody container then processLocalScopes path (members container)
      else if isTypeBodyRule container \<or> isFeatureBodyRule container
      then processLocalScopes path (owningMembers container)
      else processLocalScopes path (owningMembers container))"
  by pat_completeness auto

termination
  by (relation "measure (\<lambda>x. case x of
          Inl (_, ms) \<Rightarrow> 2 * size_list (\<lambda>p. size (snd p)) ms
        | Inr (el, _) \<Rightarrow> 2 * size el + 1)")
     (auto simp: size_element_member size_members size_owningMembers)

definition computeLocalScopes :: "node \<Rightarrow> (nat list \<times> description) list" where
  "computeLocalScopes root = processLocalScopes [] (members root)"


text \<open>The element that a membership exposes to the exports: the owned element of an
  owning membership that is neither private nor protected.\<close>

definition exposed :: "node \<Rightarrow> node option" where
  "exposed m =
     (if isOwningMembership m \<and> visibility m \<noteq> Some ''private''
         \<and> visibility m \<noteq> Some ''protected''
      then element m else None)"

text \<open>
  The elements that the traversal of the exports visits, by their positions: from a
  container with the qualified-name parts \<open>pre\<close>, the position \<open>i # p\<close> leads through the
  member \<open>i\<close>, which must expose an element; that element is the visited one when \<open>p\<close> is
  empty, and otherwise it must have a name, which is added to the parts, and the descent
  goes on in it. The result is the prefix under which the element is visited, and the
  element.
\<close>

fun descend :: "node \<Rightarrow> string list \<Rightarrow> nat list \<Rightarrow> (string list \<times> node) option" where
  "descend c pre [] = None"
| "descend c pre (i # p) =
     (if i < length (elements c) then
        (case exposed (elements c ! i) of
           None \<Rightarrow> None
         | Some e \<Rightarrow>
             if p = [] then Some (pre, e)
             else if truthy (getElementName e)
             then descend e (pre @ [the (getElementName e)]) p
             else None)
      else None)"

text \<open>The member at a position: the last index of the position selects it in the
  container that the indices before lead to.\<close>

fun memberAt :: "node \<Rightarrow> nat list \<Rightarrow> node option" where
  "memberAt c [] = None"
| "memberAt c (i # p) =
     (if i < length (elements c) then
        (if p = [] then Some (elements c ! i)
         else case element (elements c ! i) of None \<Rightarrow> None | Some e \<Rightarrow> memberAt e p)
      else None)"

text \<open>A description is an entry of an element visited under a prefix: it has the type of
  the element and is named by the name of the element or, when the prefix is not empty,
  by the qualified name.\<close>

definition entryOf :: "description \<Rightarrow> string list \<Rightarrow> node \<Rightarrow> bool" where
  "entryOf d pre e =
     (truthy (getElementName e) \<and> dtype d = ntype e
      \<and> (dname d = the (getElementName e)
          \<or> (pre \<noteq> [] \<and> dname d = join ''::'' (pre @ [the (getElementName e)]))))"


section \<open>Scope provider\<close>

text \<open>The node at a position: the position lists, from the root down, the index of the
  member whose owned element is entered.\<close>

fun nodeAt :: "node \<Rightarrow> nat list \<Rightarrow> node option" where
  "nodeAt n [] = Some n"
| "nodeAt n (i # p) =
     (if i < length (elements n) then
        (case element (elements n ! i) of None \<Rightarrow> None | Some c \<Rightarrow> nodeAt c p)
      else None)"

record local_description =
  lname :: string
  lnode :: node
  lpath :: "nat list"

fun collectEach :: "nat list \<Rightarrow> (nat \<times> node) list \<Rightarrow> local_description list" where
  "collectEach path [] = []"
| "collectEach path ((i, m) # ms) =
     (if isOwningMembership m \<and> element m \<noteq> None then
        let nm = getElementName (the (element m))
        in if truthy nm
           then [\<lparr>lname = the nm, lnode = the (element m), lpath = path @ [i]\<rparr>]
           else []
      else [])
     @ collectEach path ms"

definition collectVisibleNames :: "node \<Rightarrow> nat list \<Rightarrow> local_description list" where
  "collectVisibleNames container path =
     (if isRootNamespace container then collectEach path (members container)
      else if isPackageBody container then collectEach path (members container)
      else [])"

text \<open>The chain of \<^verbatim>\<open>$container\<close> links from the node at a position up to the root: the
  nodes at the prefixes of the position, the longest first. The members between two
  elements are in the chain of the source as well; they are neither a root nor a package
  body and add nothing.\<close>

function containerChain :: "node \<Rightarrow> nat list \<Rightarrow> (nat list \<times> node) list" where
  "containerChain root pos =
     (case nodeAt root pos of None \<Rightarrow> [] | Some n \<Rightarrow> [(pos, n)])
     @ (if pos = [] then [] else containerChain root (butlast pos))"
  by pat_completeness auto

termination
  by (relation "measure (\<lambda>(root, pos). length pos)") auto

definition getLocalScopeDescriptions :: "node \<Rightarrow> nat list \<Rightarrow> local_description list" where
  "getLocalScopeDescriptions root pos =
     concat (map (\<lambda>(p, n). collectVisibleNames n p) (containerChain root pos))"

definition getInitialScope :: "description list \<Rightarrow> node \<Rightarrow> nat list \<Rightarrow> description list" where
  "getInitialScope allElements root pos =
     (if \<not> isRootNamespace root then []
      else allElements
           @ map (\<lambda>l. \<lparr>dname = lname l, dtype = ntype (lnode l), dpath = lpath l\<rparr>)
                 (getLocalScopeDescriptions root pos))"

definition getNestedScope :: "description list \<Rightarrow> string list \<Rightarrow> description list" where
  "getNestedScope allElements previousParts =
     (let qualifiedPrefix = join ''::'' previousParts
      in map (\<lambda>desc. desc\<lparr>dname := substring (dname desc) (length qualifiedPrefix + 2)\<rparr>)
           (filter (\<lambda>desc.
              if startsWith (dname desc) (qualifiedPrefix @ ''::'')
              then \<not> includesStr (substring (dname desc) (length qualifiedPrefix + 2)) ''::''
              else False) allElements))"

record reference_info =
  names :: "string list"
  index :: "nat option"
  position :: "nat list"

definition getQualifiedNameScope :: "description list \<Rightarrow> node \<Rightarrow> reference_info \<Rightarrow> description list" where
  "getQualifiedNameScope allElements root ctx =
     (let idx = (case index ctx of None \<Rightarrow> 0 | Some i \<Rightarrow> i)
      in if idx = 0 then getInitialScope allElements root (position ctx)
         else getNestedScope allElements (take idx (names ctx)))"

text \<open>The scope that \<^verbatim>\<open>createScope\<close> of the framework builds over a list answers a
  name with the first description of that name.\<close>

definition getElement :: "description list \<Rightarrow> string \<Rightarrow> description option" where
  "getElement scope nm = find (\<lambda>d. dname d = nm) scope"


text \<open>The document of the test of a shadowed name:
  \<^verbatim>\<open>package Outer { part def X; package Inner { part def X; part def RefOuter :> Outer::X;
  part def RefInner :> X; } }\<close>.\<close>

definition shadowingDocument :: node where
  "shadowingDocument =
     parent ''RootNamespace'' None
       [owning (parent ''PackageBody'' (Some ''Outer'')
          [owning (named ''PartDefinition'' ''X''),
           owning (parent ''PackageBody'' (Some ''Inner'')
             [owning (named ''PartDefinition'' ''X''),
              owning (specializing ''PartDefinition'' ''RefOuter'' [''Outer'', ''X'']),
              owning (specializing ''PartDefinition'' ''RefInner'' [''X''])])])]"


section \<open>Multiplicity bounds (validation/helpers/multiplicity-checker)\<close>

definition UNBOUNDED :: int where
  "UNBOUNDED = - 1"

definition parseMultiplicityBound :: "string \<Rightarrow> int option" where
  "parseMultiplicityBound bound =
     (if bound = ''*'' then Some UNBOUNDED
      else let lowerBound = toLowerCase bound in
        if startsWith lowerBound ''0x'' then parseInt (drop 2 bound) 16
        else if startsWith lowerBound ''0b'' then parseInt (drop 2 bound) 2
        else if startsWith lowerBound ''0o'' then parseInt (drop 2 bound) 8
        else parseInt bound 10)"

definition isUnbounded :: "int \<Rightarrow> bool" where
  "isUnbounded v = (v = UNBOUNDED)"

record validation_result =
  isValid :: bool
  error :: "string option"
  errorProperty :: "string option"

text \<open>The lower bound as \<^verbatim>\<open>validateMultiplicityBounds\<close> reads it:
  \<^verbatim>\<open>lowerBound ? parseMultiplicityBound(lowerBound) : 0\<close>.\<close>

definition lowerValOf :: "string option \<Rightarrow> int option" where
  "lowerValOf lowerBound =
     (if truthy lowerBound then parseMultiplicityBound (the lowerBound) else Some 0)"

definition validateMultiplicityBounds :: "string option \<Rightarrow> string \<Rightarrow> validation_result" where
  "validateMultiplicityBounds lowerBound upperBound =
     (let lowerVal = lowerValOf lowerBound;
          upperVal = parseMultiplicityBound upperBound
      in if lowerVal \<noteq> None \<and> the lowerVal < 0 \<and> \<not> isUnbounded (the lowerVal) then
           \<lparr>isValid = False, error = Some ''Lower bound cannot be negative'',
            errorProperty = Some ''lowerBound''\<rparr>
         else if lowerVal \<noteq> None \<and> upperVal \<noteq> None \<and> \<not> isUnbounded (the upperVal)
                 \<and> the lowerVal > the upperVal then
           \<lparr>isValid = False,
            error = Some (''Lower bound ('' @ showInt (the lowerVal)
                          @ '') cannot be greater than upper bound (''
                          @ showInt (the upperVal) @ '')''),
            errorProperty = None\<rparr>
         else \<lparr>isValid = True, error = None, errorProperty = None\<rparr>)"


section \<open>Validator (validation/validator and its helpers)\<close>

text \<open>What a check hands to \<^verbatim>\<open>accept(severity, message, {node, property})\<close>.\<close>

record 'n accepted =
  aseverity :: string
  amessage :: string
  anode :: 'n
  aproperty :: "string option"

text \<open>A \<^verbatim>\<open>Map\<close> keeps its keys in the order of their first insertion: a list of pairs;
  \<^verbatim>\<open>set\<close> replaces the value of a key in place and puts a new key last.\<close>

definition mapGet :: "('k \<times> 'v) list \<Rightarrow> 'k \<Rightarrow> 'v option" where
  "mapGet m k = map_of m k"

fun mapSet :: "('k \<times> 'v) list \<Rightarrow> 'k \<Rightarrow> 'v \<Rightarrow> ('k \<times> 'v) list" where
  "mapSet [] k v = [(k, v)]"
| "mapSet ((k', v') # m) k v = (if k' = k then (k, v) # m else (k', v') # mapSet m k v)"

definition extractInnerElements :: "node list \<Rightarrow> node list" where
  "extractInnerElements els =
     concat (map (\<lambda>el. if isOwningMembership el \<and> element el \<noteq> None
                         then [the (element el)] else []) els)"

record duplicate_check_result =
  duplicates :: "(string \<times> node list) list"
  nameCounts :: "(string \<times> nat) list"

fun countNames :: "node list \<Rightarrow> (string \<times> nat) list \<Rightarrow> (string \<times> node list) list
    \<Rightarrow> (string \<times> nat) list \<times> (string \<times> node list) list" where
  "countNames [] counts elementsByName = (counts, elementsByName)"
| "countNames (el # els) counts elementsByName =
     (let nm = getElementName el
      in if truthy nm then
           countNames els
             (mapSet counts (the nm) ((case mapGet counts (the nm) of None \<Rightarrow> 0 | Some c \<Rightarrow> c) + 1))
             (mapSet elementsByName (the nm)
                ((case mapGet elementsByName (the nm) of None \<Rightarrow> [] | Some existing \<Rightarrow> existing)
                 @ [el]))
         else countNames els counts elementsByName)"

definition findDuplicateNames :: "node list \<Rightarrow> duplicate_check_result" where
  "findDuplicateNames els =
     (let (counts, elementsByName) = countNames els [] []
      in \<lparr>duplicates = filter (\<lambda>(nm, xs). length xs > 1) elementsByName,
          nameCounts = counts\<rparr>)"

definition reportDuplicates ::
    "duplicate_check_result \<Rightarrow> bool \<Rightarrow> string option \<Rightarrow> string \<Rightarrow> node accepted list" where
  "reportDuplicates result reportAll contextName property =
     concat (map (\<lambda>(nm, xs).
        let message = (if truthy contextName
                       then ''Duplicate element name '' @ sq @ nm @ sq @ '' in '' @ the contextName
                       else ''Duplicate element name: '' @ sq @ nm @ sq)
        in if reportAll
           then map (\<lambda>el. \<lparr>aseverity = ''error'', amessage = message, anode = el,
                           aproperty = Some property\<rparr>) xs
           else [\<lparr>aseverity = ''error'', amessage = message, anode = xs ! 0,
                  aproperty = Some property\<rparr>])
       (duplicates result))"

definition checkAndReportDuplicates :: "node list \<Rightarrow> bool \<Rightarrow> string option \<Rightarrow> node accepted list" where
  "checkAndReportDuplicates els reportAll contextName =
     reportDuplicates (findDuplicateNames els) reportAll contextName ''name''"

definition checkRootNamespace :: "node \<Rightarrow> node accepted list" where
  "checkRootNamespace root =
     checkAndReportDuplicates (extractInnerElements (elements root)) True None"

definition checkPackageBody :: "node \<Rightarrow> node accepted list" where
  "checkPackageBody pkg =
     (let pkgName = (case name pkg of None \<Rightarrow> ''<anonymous>'' | Some s \<Rightarrow> s)
      in checkAndReportDuplicates (extractInnerElements (elements pkg)) False
           (Some (''package '' @ sq @ pkgName @ sq)))"

text \<open>The elements of a list that have a given name.\<close>

definition namedGroup :: "string \<Rightarrow> node list \<Rightarrow> node list" where
  "namedGroup n els = filter (\<lambda>e. getElementName e = Some n) els"

definition checkCircularSpecialization ::
    "node \<Rightarrow> string list list \<Rightarrow> string option \<Rightarrow> string \<Rightarrow> node accepted list" where
  "checkCircularSpecialization nd specs selfName elementType =
     (if \<not> truthy selfName then []
      else concat (map (\<lambda>spec.
             if length spec = 1 \<and> spec ! 0 = the selfName
             then [\<lparr>aseverity = ''error'',
                    amessage = elementType @ '' '' @ sq @ the selfName @ sq
                               @ '' cannot specialize itself'',
                    anode = nd, aproperty = Some ''specializations''\<rparr>]
             else []) specs))"

definition checkPartDefinition :: "node \<Rightarrow> node accepted list" where
  "checkPartDefinition def =
     (if ntype def \<noteq> ''PartDefinition'' then []
      else (if isAbstract def then
              let hasNoMembers = (body def = None \<or> length (elements (the (body def))) = 0)
              in if hasNoMembers \<and> truthy (name def)
                 then [\<lparr>aseverity = ''hint'',
                        amessage = ''Abstract part definition '' @ sq @ the (name def) @ sq
                                   @ '' has no members'',
                        anode = def, aproperty = Some ''name''\<rparr>]
                 else []
            else [])
           @ checkCircularSpecialization def (specializations def) (name def) ''Part definition'')"

text \<open>The test \<^verbatim>\<open>/^\s*abstract\s/\<close> on the text of the node.\<close>

definition isAbstractFromCst :: "string \<Rightarrow> bool" where
  "isAbstractFromCst txt =
     (let r = dropWhile isWhiteSpace txt
      in startsWith r ''abstract'' \<and> length r > 8 \<and> isWhiteSpace (r ! 8))"

definition checkTypeBodyRule :: "node \<Rightarrow> node accepted list" where
  "checkTypeBodyRule bodyRule =
     (let hasNoMembers = (length (elements bodyRule) = 0)
      in (if (isAbstract bodyRule \<or> isAbstractFromCst (cstText bodyRule)) \<and> hasNoMembers
          then [\<lparr>aseverity = ''hint'',
                 amessage = ''Abstract part definition '' @ sq
                            @ (case name bodyRule of None \<Rightarrow> ''<anonymous>'' | Some s \<Rightarrow> s) @ sq
                            @ '' has no members'',
                 anode = bodyRule, aproperty = Some ''name''\<rparr>]
          else [])
         @ checkCircularSpecialization bodyRule (specializations bodyRule) (name bodyRule)
             ''Part definition'')"

definition checkFeatureBodyRule :: "node \<Rightarrow> node accepted list" where
  "checkFeatureBodyRule bodyRule = []"

definition checkAttributeDefinition :: "node \<Rightarrow> node accepted list" where
  "checkAttributeDefinition def = []"

record multiplicityBounds =
  lowerBound :: "string option"
  upperBound :: string

definition checkMultiplicity :: "multiplicityBounds \<Rightarrow> multiplicityBounds accepted list" where
  "checkMultiplicity mult =
     (let result = validateMultiplicityBounds (lowerBound mult) (upperBound mult)
      in if \<not> isValid result \<and> truthy (error result)
         then [\<lparr>aseverity = ''error'', amessage = the (error result), anode = mult,
                aproperty = errorProperty result\<rparr>]
         else [])"

text \<open>
  The checks that \<^verbatim>\<open>registerValidationChecks\<close> registers for the types of the nodes
  modelled here. The registry of the framework runs on a node every check registered
  for the type of the node or for a type above it. The table of types is generated and
  is not part of the sources: \<open>isSubtype\<close> holds the pairs that the guards of the
  validator speak of (a check for a part definition may meet a type body, a check for a
  part usage a feature body). The checks for part usages, attribute usages,
  multiplicity bounds and qualified names read properties that \<open>node\<close> does not have;
  \<open>checkMultiplicity\<close> stands above on its own type.
\<close>

definition isSubtype :: "string \<Rightarrow> string \<Rightarrow> bool" where
  "isSubtype t s = (t = s \<or> (t = ''TypeBodyRule'' \<and> s = ''PartDefinition'')
                     \<or> (t = ''FeatureBodyRule'' \<and> s = ''PartUsage''))"

definition validationChecks :: "(string \<times> (node \<Rightarrow> node accepted list)) list" where
  "validationChecks =
     [(''RootNamespace'', checkRootNamespace),
      (''PackageBody'', checkPackageBody),
      (''PartDefinition'', checkPartDefinition),
      (''TypeBodyRule'', checkTypeBodyRule),
      (''FeatureBodyRule'', checkFeatureBodyRule),
      (''AttributeDefinition'', checkAttributeDefinition)]"

definition validateNode :: "node \<Rightarrow> node accepted list" where
  "validateNode nd =
     concat (map (\<lambda>(t, check). if isSubtype (ntype nd) t then check nd else []) validationChecks)"


section \<open>Documents and their diagnostics (utils/parser-utils)\<close>

text \<open>\<^verbatim>\<open>/^Expecting[^:]*:/\<close>: the message starts with \<^verbatim>\<open>Expecting\<close> and a colon follows
  somewhere.\<close>

definition expectingMatch :: "string \<Rightarrow> bool" where
  "expectingMatch msg =
     (startsWith msg ''Expecting'' \<and> CHR '':'' \<in> set (drop 9 msg))"

text \<open>
  \<^verbatim>\<open>/but found:\s*['"]?([^'"}\n]+)['"]?/i\<close>. After the words, matched in either case,
  the white space is taken greedily and given back one character at a time while the
  rest fails; an opening quote is taken when one is there; the group is the longest run
  of characters that are no quote, no closing brace and no line feed, and must not be
  empty. \<open>butFoundGroup rest k\<close> tries \<open>k\<close> characters of white space, then fewer.
\<close>

definition groupChar :: "char \<Rightarrow> bool" where
  "groupChar c = (c \<notin> set [CHR 0x27, CHR 0x22, CHR ''}'', CHR 0x0A])"

definition butFoundAttempt :: "string \<Rightarrow> string option" where
  "butFoundAttempt r =
     (let r' = (if r \<noteq> [] \<and> (hd r = CHR 0x27 \<or> hd r = CHR 0x22) then tl r else r);
          g = takeWhile groupChar r'
      in if g = [] then None else Some g)"

fun butFoundGroup :: "string \<Rightarrow> nat \<Rightarrow> string option" where
  "butFoundGroup rest 0 = butFoundAttempt rest"
| "butFoundGroup rest (Suc k) =
     (case butFoundAttempt (drop (Suc k) rest) of
        Some g \<Rightarrow> Some g
      | None \<Rightarrow> butFoundGroup rest k)"

definition butFoundAt :: "string \<Rightarrow> string option" where
  "butFoundAt s =
     (if toLowerCase (take 10 s) = ''but found:''
      then butFoundGroup (drop 10 s) (length (takeWhile isWhiteSpace (drop 10 s)))
      else None)"

fun butFoundMatch :: "string \<Rightarrow> string option" where
  "butFoundMatch [] = None"
| "butFoundMatch (c # cs) =
     (case butFoundAt (c # cs) of Some g \<Rightarrow> Some g | None \<Rightarrow> butFoundMatch cs)"

text \<open>
  \<^verbatim>\<open>/\d+\.\s*\[([^\]]+)\]/g\<close> at the start of a string: the group and the length of the
  match.
\<close>

definition altMatchAt :: "string \<Rightarrow> (string \<times> nat) option" where
  "altMatchAt s =
     (let ds = takeWhile isDigit s; r1 = dropWhile isDigit s
      in if ds = [] \<or> r1 = [] \<or> hd r1 \<noteq> CHR ''.'' then None
         else let r2 = dropWhile isWhiteSpace (tl r1)
              in if r2 = [] \<or> hd r2 \<noteq> CHR ''['' then None
                 else let g = takeWhile (\<lambda>c. c \<noteq> CHR '']'') (tl r2);
                          r3 = dropWhile (\<lambda>c. c \<noteq> CHR '']'') (tl r2)
                      in if g = [] \<or> r3 = [] then None
                         else Some (g, length s - length r3 + 1))"

fun altSearch :: "string \<Rightarrow> nat \<Rightarrow> (string \<times> nat) option" where
  "altSearch [] at = None"
| "altSearch (c # cs) at =
     (case altMatchAt (c # cs) of
        Some (g, len) \<Rightarrow> Some (g, at + len)
      | None \<Rightarrow> altSearch cs (Suc at))"

text \<open>\<^verbatim>\<open>altRegex.exec(message)\<close> of the regular expression with the flag \<^verbatim>\<open>g\<close>: the search
  starts at \<^verbatim>\<open>lastIndex\<close>; a match gives its group and moves \<^verbatim>\<open>lastIndex\<close> behind the
  match; no match gives \<^verbatim>\<open>null\<close> and sets \<^verbatim>\<open>lastIndex\<close> to 0. The result is the pair of
  the group, if any, and the new \<^verbatim>\<open>lastIndex\<close>.\<close>

definition altExec :: "string \<Rightarrow> nat \<Rightarrow> string option \<times> nat" where
  "altExec msg lastIndex =
     (if lastIndex > length msg then (None, 0)
      else case altSearch (drop lastIndex msg) lastIndex of
             None \<Rightarrow> (None, 0)
           | Some (g, li) \<Rightarrow> (Some g, li))"

text \<open>The loop \<^verbatim>\<open>while ((match = altRegex.exec(message)) && alternatives.length < 5)\<close>:
  the call of \<^verbatim>\<open>exec\<close> comes first in the condition. The result is the alternatives and
  \<^verbatim>\<open>lastIndex\<close> after the loop.\<close>

function collectAlternatives :: "string \<Rightarrow> nat \<Rightarrow> string list \<Rightarrow> string list \<times> nat" where
  "collectAlternatives msg lastIndex alternatives =
     (case altExec msg lastIndex of
        (None, li) \<Rightarrow> (alternatives, li)
      | (Some g, li) \<Rightarrow>
          if length alternatives < 5
          then collectAlternatives msg li (alternatives @ [g])
          else (alternatives, li))"
  by pat_completeness auto

termination
  by (relation "measure (\<lambda>(msg, lastIndex, alternatives). 5 - length alternatives)") auto

definition simplifyParserError :: "string \<Rightarrow> string" where
  "simplifyParserError msg =
     (if \<not> expectingMatch msg then msg
      else
        let foundToken = (case butFoundMatch msg of
                            None \<Rightarrow> ''unexpected token''
                          | Some g \<Rightarrow> if trim g = [] then ''unexpected token'' else trim g);
            (alternatives, lastIndex) = collectAlternatives msg 0 []
        in if length alternatives > 0 then
             let hasMore = (fst (altExec msg lastIndex) \<noteq> None)
             in ''Unexpected '' @ sq @ foundToken @ sq @ ''. Expected: ''
                @ join '', '' alternatives @ (if hasMore then '', ...'' else '''')
           else if length msg > 200 then take 200 msg @ ''...'' else msg)"

text \<open>A diagnostic of the language server protocol: the severity is an optional number,
  1 for an error, 2 for a warning, 3 for an information, 4 for a hint.\<close>

record lsp_diagnostic =
  severity :: "nat option"
  message :: string

record document_validation =
  diagnostics :: "lsp_diagnostic list"
  errors :: "lsp_diagnostic list"
  warnings :: "lsp_diagnostic list"
  hints :: "lsp_diagnostic list"
  valid :: bool

text \<open>
  \<^verbatim>\<open>validateDocument\<close>, from the diagnostics the built document holds
  (\<^verbatim>\<open>document.diagnostics ?? []\<close>) on: every message is simplified, then the list is
  filtered by severity; \<open>valid\<close> is the field \<^verbatim>\<open>isValid\<close>.
\<close>

definition validateDocument :: "lsp_diagnostic list \<Rightarrow> document_validation" where
  "validateDocument documentDiagnostics =
     (let ds = map (\<lambda>d. d\<lparr>message := simplifyParserError (message d)\<rparr>) documentDiagnostics
      in \<lparr>diagnostics = ds,
          errors = filter (\<lambda>d. severity d = Some 1) ds,
          warnings = filter (\<lambda>d. severity d = Some 2) ds,
          hints = filter (\<lambda>d. severity d = Some 3 \<or> severity d = Some 4) ds,
          valid = (\<not> list_ex (\<lambda>d. severity d = Some 1) ds)\<rparr>)"


section \<open>Properties of the document result\<close>

lemma severity_simplified:
  "severity (d\<lparr>message := m\<rparr>) = severity d"
  by simp

text \<open>
  Claim C7. The field \<^verbatim>\<open>isValid\<close> of the result of \<^verbatim>\<open>validateDocument\<close> is true exactly
  when the diagnostics of the document hold no diagnostic of severity 1; a diagnostic of
  severity 2, 3 or 4 (or of no severity) does not change it.
\<close>

theorem validateDocument_isValid:
  "valid (validateDocument ds) = (length (filter (\<lambda>d. severity d = Some 1) ds) = 0)
   \<and> valid (validateDocument (filter (\<lambda>d. severity d \<noteq> Some 1) ds))"
  by (simp add: validateDocument_def Let_def list_ex_iff filter_empty_conv)


section \<open>Properties of the multiplicity check\<close>

text \<open>
  Claim C4, as amended. For every multiplicity whose upper bound parses to a value \<open>U\<close>
  that is not the sentinel of an unbounded bound, and whose lower bound parses to \<open>L\<close>
  (0 when it is absent), both of absolute value at most \<open>2^53\<close>, the range in which the
  numbers of the code and their printed digits are those of the model: the check gives
  one error when \<open>L\<close> is below \<open>-1\<close>, with the message \<^verbatim>\<open>Lower bound cannot be negative\<close>;
  otherwise it gives one error exactly when \<open>L > U\<close>, with the message
  \<^verbatim>\<open>Lower bound (L) cannot be greater than upper bound (U)\<close> holding the parsed values in
  decimal digits; otherwise it gives nothing. Beyond that range nothing is stated: the
  code rounds each bound to a double before it compares them, so that
  \<^verbatim>\<open>[9007199254740993..9007199254740992]\<close> is accepted, and prints a number from \<open>10^21\<close>
  on with an exponent.
\<close>

theorem checkMultiplicity_bounds:
  assumes "parseMultiplicityBound (upperBound mult) = Some U"
    and "\<not> isUnbounded U"
    and "lowerValOf (lowerBound mult) = Some L"
    and "\<bar>L\<bar> \<le> 2 ^ 53"
    and "\<bar>U\<bar> \<le> 2 ^ 53"
  shows "checkMultiplicity mult =
     (if L < - 1 then
        [\<lparr>aseverity = ''error'', amessage = ''Lower bound cannot be negative'',
          anode = mult, aproperty = Some ''lowerBound''\<rparr>]
      else if L > U then
        [\<lparr>aseverity = ''error'',
          amessage = ''Lower bound ('' @ showInt L @ '') cannot be greater than upper bound (''
                     @ showInt U @ '')'',
          anode = mult, aproperty = None\<rparr>]
      else [])"
  using assms
  by (auto simp add: checkMultiplicity_def validateMultiplicityBounds_def Let_def
      isUnbounded_def UNBOUNDED_def truthy_def)

text \<open>The theorem at the bounds \<^verbatim>\<open>[12..0x0A]\<close>.\<close>

theorem checkMultiplicity_bounds_witness:
  "parseMultiplicityBound ''0x0A'' = Some 10 \<and> \<not> isUnbounded 10
   \<and> lowerValOf (Some ''12'') = Some 12
   \<and> \<bar>12 :: int\<bar> \<le> 2 ^ 53 \<and> \<bar>10 :: int\<bar> \<le> 2 ^ 53
   \<and> checkMultiplicity \<lparr>lowerBound = Some ''12'', upperBound = ''0x0A''\<rparr> =
       [\<lparr>aseverity = ''error'',
         amessage = ''Lower bound (12) cannot be greater than upper bound (10)'',
         anode = \<lparr>lowerBound = Some ''12'', upperBound = ''0x0A''\<rparr>, aproperty = None\<rparr>]"
proof -
  have u: "parseMultiplicityBound (upperBound \<lparr>lowerBound = Some ''12'', upperBound = ''0x0A''\<rparr>) = Some 10"
    by code_simp
  have f: "\<not> isUnbounded 10"
    by code_simp
  have l: "lowerValOf (lowerBound \<lparr>lowerBound = Some ''12'', upperBound = ''0x0A''\<rparr>) = Some 12"
    by code_simp
  have s: "showInt 12 = ''12''" "showInt 10 = ''10''"
    by code_simp+
  have r: "\<bar>12 :: int\<bar> \<le> 2 ^ 53" "\<bar>10 :: int\<bar> \<le> 2 ^ 53"
    by simp_all
  from checkMultiplicity_bounds [OF u f l r] u f l r s show ?thesis
    by simp
qed

text \<open>
  The claim as it is stated fails at the lower bound \<^verbatim>\<open>-5\<close> with the upper bound \<^verbatim>\<open>3\<close>:
  both parse, the upper bound is finite, the lower bound is not greater than the upper
  one, and the check gives an error.
\<close>

theorem checkMultiplicity_negative_lower_counterexample:
  "parseMultiplicityBound ''3'' = Some 3 \<and> \<not> isUnbounded 3
   \<and> lowerValOf (Some ''-5'') = Some (- 5) \<and> \<not> ((- 5 :: int) > 3)
   \<and> checkMultiplicity \<lparr>lowerBound = Some ''-5'', upperBound = ''3''\<rparr> =
       [\<lparr>aseverity = ''error'', amessage = ''Lower bound cannot be negative'',
         anode = \<lparr>lowerBound = Some ''-5'', upperBound = ''3''\<rparr>,
         aproperty = Some ''lowerBound''\<rparr>]"
  by code_simp

text \<open>
  Claim C10, as amended. The lower bound \<^verbatim>\<open>*\<close> parses to \<open>-1\<close> and gives no diagnostic
  when the upper bound does not parse or parses to a value that is at least \<open>-1\<close>; a
  lower bound that does not parse gives no diagnostic; an upper bound that does not parse
  gives no diagnostic unless the lower bound parses to a value below \<open>-1\<close>.
\<close>

theorem lenient_bounds:
  "parseMultiplicityBound ''*'' = Some (- 1)
   \<and> (lowerBound mult = Some ''*'' \<longrightarrow>
        (case parseMultiplicityBound (upperBound mult) of None \<Rightarrow> True | Some U \<Rightarrow> - 1 \<le> U) \<longrightarrow>
        checkMultiplicity mult = [])
   \<and> (lowerValOf (lowerBound mult) = None \<longrightarrow> checkMultiplicity mult = [])
   \<and> (parseMultiplicityBound (upperBound mult) = None \<longrightarrow>
        (checkMultiplicity mult = []) = (\<not> (\<exists>L. lowerValOf (lowerBound mult) = Some L \<and> L < - 1)))"
proof -
  have star: "parseMultiplicityBound ''*'' = Some (- 1)"
    by (simp add: parseMultiplicityBound_def UNBOUNDED_def)
  have lv: "lowerValOf (Some ''*'') = Some (- 1)"
    by (simp add: lowerValOf_def truthy_def star)
  show ?thesis
    using star lv
    by (auto simp add: checkMultiplicity_def validateMultiplicityBounds_def Let_def
        isUnbounded_def UNBOUNDED_def truthy_def split: option.splits)
qed

text \<open>The theorem at \<^verbatim>\<open>[*..5]\<close>, at the lower bound \<^verbatim>\<open>abc\<close> and at the upper bound \<^verbatim>\<open>abc\<close>.\<close>

theorem lenient_bounds_witness:
  "checkMultiplicity \<lparr>lowerBound = Some ''*'', upperBound = ''5''\<rparr> = []
   \<and> lowerValOf (Some ''abc'') = None
   \<and> checkMultiplicity \<lparr>lowerBound = Some ''abc'', upperBound = ''5''\<rparr> = []
   \<and> parseMultiplicityBound ''abc'' = None
   \<and> checkMultiplicity \<lparr>lowerBound = Some ''7'', upperBound = ''abc''\<rparr> = []"
proof -
  have a: "parseMultiplicityBound (upperBound \<lparr>lowerBound = Some ''*'', upperBound = ''5''\<rparr>) = Some 5"
    by code_simp
  have b: "lowerValOf (lowerBound \<lparr>lowerBound = Some ''abc'', upperBound = ''5''\<rparr>) = None"
    by code_simp
  have c: "parseMultiplicityBound (upperBound \<lparr>lowerBound = Some ''7'', upperBound = ''abc''\<rparr>) = None"
    by code_simp
  have d: "lowerValOf (lowerBound \<lparr>lowerBound = Some ''7'', upperBound = ''abc''\<rparr>) = Some 7"
    by code_simp
  show ?thesis
    using lenient_bounds [of "\<lparr>lowerBound = Some ''*'', upperBound = ''5''\<rparr>"]
      lenient_bounds [of "\<lparr>lowerBound = Some ''abc'', upperBound = ''5''\<rparr>"]
      lenient_bounds [of "\<lparr>lowerBound = Some ''7'', upperBound = ''abc''\<rparr>"]
      a b c d
    by simp
qed

text \<open>
  The claim as it is stated fails at \<^verbatim>\<open>[*..-2]\<close>, where the lower bound \<^verbatim>\<open>*\<close> gives the
  error of the order of the bounds, and at the upper bound \<^verbatim>\<open>x\<close>, which does not parse,
  with the lower bound \<^verbatim>\<open>-5\<close>, where the error of the negative lower bound is given.
\<close>

theorem lenient_bounds_counterexample:
  "checkMultiplicity \<lparr>lowerBound = Some ''*'', upperBound = ''-2''\<rparr> =
     [\<lparr>aseverity = ''error'',
       amessage = ''Lower bound (-1) cannot be greater than upper bound (-2)'',
       anode = \<lparr>lowerBound = Some ''*'', upperBound = ''-2''\<rparr>, aproperty = None\<rparr>]
   \<and> parseMultiplicityBound ''x'' = None
   \<and> checkMultiplicity \<lparr>lowerBound = Some ''-5'', upperBound = ''x''\<rparr> =
     [\<lparr>aseverity = ''error'', amessage = ''Lower bound cannot be negative'',
       anode = \<lparr>lowerBound = Some ''-5'', upperBound = ''x''\<rparr>,
       aproperty = Some ''lowerBound''\<rparr>]"
  by code_simp


section \<open>Properties of the check for duplicate names\<close>

lemma mapSet_map_of: "map_of (mapSet m k v) = (map_of m)(k \<mapsto> v)"
  by (induction m) (auto simp: fun_eq_iff)

lemma mapSet_keys: "set (map fst (mapSet m k v)) = insert k (set (map fst m))"
proof (induction m)
  case Nil
  then show ?case by simp
next
  case (Cons p m)
  then show ?case by (cases p) (simp add: insert_commute)
qed

lemma mapSet_distinct: "distinct (map fst m) \<Longrightarrow> distinct (map fst (mapSet m k v))"
proof (induction m)
  case Nil
  then show ?case by simp
next
  case (Cons p m)
  obtain k' v' where p: "p = (k', v')" by (cases p)
  show ?case
  proof (cases "k' = k")
    case True
    with Cons.prems p show ?thesis by simp
  next
    case False
    from Cons.prems p have "k' \<notin> set (map fst m)" and "distinct (map fst m)" by auto
    with False Cons.IH p show ?thesis
      using mapSet_keys [of m k v] by auto
  qed
qed

lemma countNames_groups:
  "distinct (map fst m) \<Longrightarrow>
   distinct (map fst (snd (countNames els c m))) \<and>
   (\<forall>n. map_of (snd (countNames els c m)) n =
      (if n = [] \<or> namedGroup n els = [] then map_of m n
       else Some ((case map_of m n of None \<Rightarrow> [] | Some xs \<Rightarrow> xs) @ namedGroup n els)))"
proof (induction els arbitrary: c m)
  case Nil
  then show ?case by (simp add: namedGroup_def)
next
  case (Cons el els)
  show ?case
  proof (cases "truthy (getElementName el)")
    case False
    then have "namedGroup n (el # els) = namedGroup n els" if "n \<noteq> []" for n
      using that by (auto simp: namedGroup_def truthy_def)
    with False Cons show ?thesis by (simp add: Let_def)
  next
    case True
    then obtain k where k: "getElementName el = Some k" "k \<noteq> []"
      by (auto simp: truthy_def split: option.splits)
    let ?m = "mapSet m k ((case mapGet m k of None \<Rightarrow> [] | Some existing \<Rightarrow> existing) @ [el])"
    let ?c = "mapSet c k ((case mapGet c k of None \<Rightarrow> 0 | Some c \<Rightarrow> c) + 1)"
    have step: "countNames (el # els) c m = countNames els ?c ?m"
      using True k by (simp add: Let_def)
    have d: "distinct (map fst ?m)"
      using Cons.prems by (rule mapSet_distinct)
    note IH = Cons.IH [OF d, of ?c]
    show ?thesis
      unfolding step
    proof (intro conjI allI)
      show "distinct (map fst (snd (countNames els ?c ?m)))"
        using IH by simp
    next
      fix n
      have g: "namedGroup n (el # els) = (if n = k then el # namedGroup n els else namedGroup n els)"
        using k by (auto simp: namedGroup_def)
      show "map_of (snd (countNames els ?c ?m)) n =
        (if n = [] \<or> namedGroup n (el # els) = [] then map_of m n
         else Some ((case map_of m n of None \<Rightarrow> [] | Some xs \<Rightarrow> xs) @ namedGroup n (el # els)))"
        using IH k by (auto simp: g mapSet_map_of mapGet_def split: option.splits)
    qed
  qed
qed

lemma elementsByName_groups:
  "distinct (map fst (snd (countNames els [] [])))"
  "map_of (snd (countNames els [] [])) n =
     (if n = [] \<or> namedGroup n els = [] then None else Some (namedGroup n els))"
  using countNames_groups [of "[]" els "[]"] by simp_all

lemma concat_key:
  "distinct (map fst m) \<Longrightarrow>
   concat (map (\<lambda>(k, v). if k = k0 then F v else []) m) =
     (case map_of m k0 of None \<Rightarrow> [] | Some v \<Rightarrow> F v)"
proof (induction m)
  case Nil
  then show ?case by simp
next
  case (Cons p m)
  obtain k v where p: "p = (k, v)" by (cases p)
  show ?case
  proof (cases "k = k0")
    case True
    with Cons.prems p have "k0 \<notin> fst ` set m" by auto
    then have "concat (map (\<lambda>(k, v). if k = k0 then F v else []) m) = []"
      by (induction m) auto
    with True p show ?thesis by simp
  next
    case False
    with Cons p show ?thesis by simp
  qed
qed

lemma filter_concat_map:
  "filter P (concat (map f xs)) = concat (map (\<lambda>x. filter P (f x)) xs)"
  by (induction xs) auto

lemma map_of_filter_dups:
  "distinct (map fst m) \<Longrightarrow>
   map_of (filter (\<lambda>(k, v). Q v) m) k0 =
     (case map_of m k0 of None \<Rightarrow> None | Some v \<Rightarrow> if Q v then Some v else None)"
proof (induction m)
  case Nil
  then show ?case by simp
next
  case (Cons p m)
  obtain k v where p: "p = (k, v)" by (cases p)
  show ?case
  proof (cases "k = k0")
    case True
    with Cons.prems p have "k0 \<notin> fst ` set m" by auto
    then have "map_of (filter (\<lambda>(k, v). Q v) m) k0 = None"
      by (auto simp: map_of_eq_None_iff)
    with True p show ?thesis by simp
  next
    case False
    with Cons p show ?thesis by simp
  qed
qed

lemma duplicates_of:
  "distinct (map fst (duplicates (findDuplicateNames els)))"
  "map_of (duplicates (findDuplicateNames els)) n =
     (if n \<noteq> [] \<and> length (namedGroup n els) > 1 then Some (namedGroup n els) else None)"
proof -
  obtain c m where cm: "countNames els [] [] = (c, m)"
    by (cases "countNames els [] []")
  then have m: "m = snd (countNames els [] [])" by simp
  have dups: "duplicates (findDuplicateNames els) = filter (\<lambda>(nm, xs). length xs > 1) m"
    by (simp add: findDuplicateNames_def cm)
  show "distinct (map fst (duplicates (findDuplicateNames els)))"
    unfolding dups using elementsByName_groups(1) [of els] m by (simp add: distinct_map_filter)
  show "map_of (duplicates (findDuplicateNames els)) n =
     (if n \<noteq> [] \<and> length (namedGroup n els) > 1 then Some (namedGroup n els) else None)"
    unfolding dups using elementsByName_groups(1) [of els] elementsByName_groups(2) [of els n] m
    by (auto simp: map_of_filter_dups)
qed


lemma namedGroup_names: "e \<in> set (namedGroup n els) \<Longrightarrow> getElementName e = Some n"
  by (simp add: namedGroup_def)

lemma reportDuplicates_by_name:
  assumes inj: "\<And>a b. M a = M b \<Longrightarrow> a = b"
    and dist: "distinct (map fst dups)"
  shows "filter (\<lambda>d. amessage d = M n)
           (concat (map (\<lambda>(nm, xs). map (\<lambda>el. \<lparr>aseverity = ''error'', amessage = M nm, anode = el,
                                              aproperty = Some p\<rparr>) (R xs)) dups))
         = (case map_of dups n of
              None \<Rightarrow> []
            | Some xs \<Rightarrow> map (\<lambda>el. \<lparr>aseverity = ''error'', amessage = M n, anode = el,
                                   aproperty = Some p\<rparr>) (R xs))"
proof -
  have "filter (\<lambda>d. amessage d = M n)
           (concat (map (\<lambda>(nm, xs). map (\<lambda>el. \<lparr>aseverity = ''error'', amessage = M nm, anode = el,
                                              aproperty = Some p\<rparr>) (R xs)) dups))
        = concat (map (\<lambda>(nm, xs). if nm = n
                         then map (\<lambda>el. \<lparr>aseverity = ''error'', amessage = M n, anode = el,
                                         aproperty = Some p\<rparr>) (R xs)
                         else []) dups)"
    unfolding filter_concat_map map_map
    by (rule arg_cong [where f = concat], rule map_cong)
       (auto simp: filter_empty_conv dest: inj)
  also have "\<dots> = (case map_of dups n of
              None \<Rightarrow> []
            | Some xs \<Rightarrow> map (\<lambda>el. \<lparr>aseverity = ''error'', amessage = M n, anode = el,
                                   aproperty = Some p\<rparr>) (R xs))"
    using concat_key [OF dist, of n
        "\<lambda>xs. map (\<lambda>el. \<lparr>aseverity = ''error'', amessage = M n, anode = el,
                        aproperty = Some p\<rparr>) (R xs)"]
    by simp
  finally show ?thesis .
qed

lemma checkRootNamespace_eq:
  "checkRootNamespace root =
     concat (map (\<lambda>(nm, xs). map (\<lambda>el. \<lparr>aseverity = ''error'',
                     amessage = ''Duplicate element name: '' @ sq @ nm @ sq, anode = el,
                     aproperty = Some ''name''\<rparr>) xs)
       (duplicates (findDuplicateNames (extractInnerElements (elements root)))))"
  by (simp add: checkRootNamespace_def checkAndReportDuplicates_def reportDuplicates_def
      truthy_def Let_def)

lemma checkPackageBody_eq:
  "checkPackageBody pkg =
     concat (map (\<lambda>(nm, xs). map (\<lambda>el. \<lparr>aseverity = ''error'',
                     amessage = ''Duplicate element name '' @ sq @ nm @ sq @ '' in package '' @ sq
                       @ (case name pkg of None \<Rightarrow> ''<anonymous>'' | Some s \<Rightarrow> s) @ sq,
                     anode = el, aproperty = Some ''name''\<rparr>) [xs ! 0])
       (duplicates (findDuplicateNames (extractInnerElements (elements pkg)))))"
  by (simp add: checkPackageBody_def checkAndReportDuplicates_def reportDuplicates_def
      truthy_def Let_def)

lemma checkRootNamespace_group:
  "filter (\<lambda>d. amessage d = ''Duplicate element name: '' @ sq @ n @ sq) (checkRootNamespace root)
   = (if n \<noteq> [] \<and> 1 < length (namedGroup n (extractInnerElements (elements root)))
      then map (\<lambda>el. \<lparr>aseverity = ''error'', amessage = ''Duplicate element name: '' @ sq @ n @ sq,
                      anode = el, aproperty = Some ''name''\<rparr>)
             (namedGroup n (extractInnerElements (elements root)))
      else [])"
  unfolding checkRootNamespace_eq
  using reportDuplicates_by_name [of "\<lambda>nm. ''Duplicate element name: '' @ sq @ nm @ sq"
      "duplicates (findDuplicateNames (extractInnerElements (elements root)))" n "''name''"
      "\<lambda>xs. xs", OF _ duplicates_of(1)]
    duplicates_of(2) [of "extractInnerElements (elements root)" n]
  by simp

lemma checkPackageBody_group:
  "filter (\<lambda>d. amessage d = ''Duplicate element name '' @ sq @ n @ sq @ '' in package '' @ sq
                  @ (case name pkg of None \<Rightarrow> ''<anonymous>'' | Some s \<Rightarrow> s) @ sq)
     (checkPackageBody pkg)
   = (if n \<noteq> [] \<and> 1 < length (namedGroup n (extractInnerElements (elements pkg)))
      then [\<lparr>aseverity = ''error'',
             amessage = ''Duplicate element name '' @ sq @ n @ sq @ '' in package '' @ sq
                  @ (case name pkg of None \<Rightarrow> ''<anonymous>'' | Some s \<Rightarrow> s) @ sq,
             anode = hd (namedGroup n (extractInnerElements (elements pkg))),
             aproperty = Some ''name''\<rparr>]
      else [])"
proof -
  define M where "M = (\<lambda>nm. ''Duplicate element name '' @ sq @ nm @ sq @ '' in package '' @ sq
                  @ (case name pkg of None \<Rightarrow> ''<anonymous>'' | Some s \<Rightarrow> s) @ sq)"
  have inj: "\<And>a b. M a = M b \<Longrightarrow> a = b"
    by (simp add: M_def)
  have "filter (\<lambda>d. amessage d = M n) (checkPackageBody pkg)
        = (case map_of (duplicates (findDuplicateNames (extractInnerElements (elements pkg)))) n of
              None \<Rightarrow> []
            | Some xs \<Rightarrow> map (\<lambda>el. \<lparr>aseverity = ''error'', amessage = M n, anode = el,
                                   aproperty = Some ''name''\<rparr>) [xs ! 0])"
    using reportDuplicates_by_name [where M = M and n = n and p = "''name''"
        and R = "\<lambda>xs. [xs ! 0]", OF inj duplicates_of(1)]
    by (simp add: checkPackageBody_eq M_def)
  also have "\<dots> = (if n \<noteq> [] \<and> 1 < length (namedGroup n (extractInnerElements (elements pkg)))
      then [\<lparr>aseverity = ''error'', amessage = M n,
             anode = hd (namedGroup n (extractInnerElements (elements pkg))),
             aproperty = Some ''name''\<rparr>]
      else [])"
    by (cases "namedGroup n (extractInnerElements (elements pkg))")
       (auto simp: duplicates_of(2))
  finally show ?thesis
    unfolding M_def .
qed

lemma duplicates_named:
  assumes "(nm, xs) \<in> set (duplicates (findDuplicateNames els))"
  shows "nm \<noteq> [] \<and> xs = namedGroup nm els \<and> 1 < length xs"
proof -
  from assms duplicates_of(1) [of els] have "map_of (duplicates (findDuplicateNames els)) nm = Some xs"
    by simp
  with duplicates_of(2) [of els nm] show ?thesis
    by (auto split: if_splits)
qed


lemma checkRootNamespace_only_duplicates:
  assumes "d \<in> set (checkRootNamespace root)"
  shows "\<exists>n. n \<noteq> [] \<and> getElementName (anode d) = Some n
             \<and> amessage d = ''Duplicate element name: '' @ sq @ n @ sq
             \<and> 1 < length (namedGroup n (extractInnerElements (elements root)))"
proof -
  from assms obtain nm xs el
    where in_dups: "(nm, xs) \<in> set (duplicates (findDuplicateNames (extractInnerElements (elements root))))"
      and el: "el \<in> set xs"
      and d: "d = \<lparr>aseverity = ''error'', amessage = ''Duplicate element name: '' @ sq @ nm @ sq,
                   anode = el, aproperty = Some ''name''\<rparr>"
    unfolding checkRootNamespace_eq by auto
  from duplicates_named [OF in_dups] el d show ?thesis
    by (auto dest: namedGroup_names)
qed

lemma checkPackageBody_only_duplicates:
  assumes "d \<in> set (checkPackageBody pkg)"
  shows "\<exists>n. n \<noteq> [] \<and> getElementName (anode d) = Some n
             \<and> amessage d = ''Duplicate element name '' @ sq @ n @ sq @ '' in package '' @ sq
                  @ (case name pkg of None \<Rightarrow> ''<anonymous>'' | Some s \<Rightarrow> s) @ sq
             \<and> 1 < length (namedGroup n (extractInnerElements (elements pkg)))"
proof -
  from assms obtain nm xs
    where in_dups: "(nm, xs) \<in> set (duplicates (findDuplicateNames (extractInnerElements (elements pkg))))"
      and d: "d = \<lparr>aseverity = ''error'',
                   amessage = ''Duplicate element name '' @ sq @ nm @ sq @ '' in package '' @ sq
                     @ (case name pkg of None \<Rightarrow> ''<anonymous>'' | Some s \<Rightarrow> s) @ sq,
                   anode = xs ! 0, aproperty = Some ''name''\<rparr>"
    unfolding checkPackageBody_eq by auto
  from duplicates_named [OF in_dups]
  have xs: "nm \<noteq> []" "xs = namedGroup nm (extractInnerElements (elements pkg))" "1 < length xs"
    by blast+
  from xs(3) have "0 < length xs" by linarith
  then have "xs ! 0 \<in> set xs" by (rule nth_mem)
  with xs d show ?thesis
    by (auto dest: namedGroup_names)
qed

text \<open>
  Claim C5. For a name \<open>n\<close> and the owned elements of that name (the group): the check
  of the root gives, when the name is not empty and the group has more than one element,
  one error for each element of the group, in their order, with the message
  \<^verbatim>\<open>Duplicate element name: 'n'\<close>, and no diagnostic of that message otherwise; the check of
  a package body gives then exactly one error, on the first element of the group, with
  the message \<^verbatim>\<open>Duplicate element name 'n' in package 'p'\<close>, where \<open>p\<close> is the name of the
  package or \<^verbatim>\<open><anonymous>\<close>. Every diagnostic of either check is one of these: its node
  has a name that is not empty and that more than one owned element has.
\<close>

theorem duplicate_name_reports:
  "filter (\<lambda>d. amessage d = ''Duplicate element name: '' @ sq @ n @ sq) (checkRootNamespace root)
     = (if n \<noteq> [] \<and> 1 < length (namedGroup n (extractInnerElements (elements root)))
        then map (\<lambda>el. \<lparr>aseverity = ''error'',
                        amessage = ''Duplicate element name: '' @ sq @ n @ sq,
                        anode = el, aproperty = Some ''name''\<rparr>)
               (namedGroup n (extractInnerElements (elements root)))
        else [])
   \<and> filter (\<lambda>d. amessage d = ''Duplicate element name '' @ sq @ n @ sq @ '' in package '' @ sq
                  @ (case name pkg of None \<Rightarrow> ''<anonymous>'' | Some s \<Rightarrow> s) @ sq)
       (checkPackageBody pkg)
     = (if n \<noteq> [] \<and> 1 < length (namedGroup n (extractInnerElements (elements pkg)))
        then [\<lparr>aseverity = ''error'',
               amessage = ''Duplicate element name '' @ sq @ n @ sq @ '' in package '' @ sq
                  @ (case name pkg of None \<Rightarrow> ''<anonymous>'' | Some s \<Rightarrow> s) @ sq,
               anode = hd (namedGroup n (extractInnerElements (elements pkg))),
               aproperty = Some ''name''\<rparr>]
        else [])
   \<and> (\<forall>d \<in> set (checkRootNamespace root). \<exists>m. m \<noteq> [] \<and> getElementName (anode d) = Some m
          \<and> amessage d = ''Duplicate element name: '' @ sq @ m @ sq
          \<and> 1 < length (namedGroup m (extractInnerElements (elements root))))
   \<and> (\<forall>d \<in> set (checkPackageBody pkg). \<exists>m. m \<noteq> [] \<and> getElementName (anode d) = Some m
          \<and> amessage d = ''Duplicate element name '' @ sq @ m @ sq @ '' in package '' @ sq
                  @ (case name pkg of None \<Rightarrow> ''<anonymous>'' | Some s \<Rightarrow> s) @ sq
          \<and> 1 < length (namedGroup m (extractInnerElements (elements pkg))))"
  using checkRootNamespace_group [of n root] checkPackageBody_group [of n pkg]
    checkRootNamespace_only_duplicates [of _ root] checkPackageBody_only_duplicates [of _ pkg]
  by blast

text \<open>The theorem at four members of which two have the name \<open>A\<close> and two have none.\<close>

theorem duplicate_name_reports_witness:
  "checkRootNamespace (parent ''RootNamespace'' None
      [owning (named ''PartDefinition'' ''A''), owning (anonymous ''PartDefinition''),
       owning (named ''ActionDefinition'' ''A''), owning (anonymous ''PartDefinition'')])
     = [\<lparr>aseverity = ''error'', amessage = ''Duplicate element name: '' @ sq @ ''A'' @ sq,
         anode = named ''PartDefinition'' ''A'', aproperty = Some ''name''\<rparr>,
        \<lparr>aseverity = ''error'', amessage = ''Duplicate element name: '' @ sq @ ''A'' @ sq,
         anode = named ''ActionDefinition'' ''A'', aproperty = Some ''name''\<rparr>]
   \<and> filter (\<lambda>d. amessage d = ''Duplicate element name '' @ sq @ ''A'' @ sq @ '' in package ''
                    @ sq @ ''<anonymous>'' @ sq)
       (checkPackageBody (parent ''PackageBody'' None
          [owning (named ''PartDefinition'' ''A''), owning (anonymous ''PartDefinition''),
           owning (named ''ActionDefinition'' ''A''), owning (anonymous ''PartDefinition'')]))
     = [\<lparr>aseverity = ''error'',
         amessage = ''Duplicate element name '' @ sq @ ''A'' @ sq @ '' in package ''
                    @ sq @ ''<anonymous>'' @ sq,
         anode = named ''PartDefinition'' ''A'', aproperty = Some ''name''\<rparr>]"
proof -
  let ?ms = "[owning (named ''PartDefinition'' ''A''), owning (anonymous ''PartDefinition''),
       owning (named ''ActionDefinition'' ''A''), owning (anonymous ''PartDefinition'')]"
  have g: "namedGroup ''A'' (extractInnerElements (elements (parent ''PackageBody'' None ?ms)))
           = [named ''PartDefinition'' ''A'', named ''ActionDefinition'' ''A'']"
    by code_simp
  have nm: "name (parent ''PackageBody'' None ?ms) = None"
    by code_simp
  have r: "checkRootNamespace (parent ''RootNamespace'' None ?ms)
     = [\<lparr>aseverity = ''error'', amessage = ''Duplicate element name: '' @ sq @ ''A'' @ sq,
         anode = named ''PartDefinition'' ''A'', aproperty = Some ''name''\<rparr>,
        \<lparr>aseverity = ''error'', amessage = ''Duplicate element name: '' @ sq @ ''A'' @ sq,
         anode = named ''ActionDefinition'' ''A'', aproperty = Some ''name''\<rparr>]"
    by code_simp
  from duplicate_name_reports [of "''A''" "parent ''RootNamespace'' None ?ms"
      "parent ''PackageBody'' None ?ms"] g nm r
  show ?thesis by simp
qed



section \<open>Properties of the check for self-specialization\<close>

lemma checkCircularSpecialization_eq:
  "checkCircularSpecialization nd specs (Some n) t =
     (if n = [] then []
      else replicate (length (filter (\<lambda>s. s = [n]) specs))
             \<lparr>aseverity = ''error'', amessage = t @ '' '' @ sq @ n @ sq @ '' cannot specialize itself'',
              anode = nd, aproperty = Some ''specializations''\<rparr>)"
proof -
  have single: "(length s = Suc 0 \<and> s ! 0 = n) = (s = [n])" for s :: "string list"
    by (cases s) auto
  have "concat (map (\<lambda>spec. if length spec = Suc 0 \<and> spec ! 0 = n then [d] else []) specs)
        = replicate (length (filter (\<lambda>s. s = [n]) specs)) d" for d :: "node accepted"
    by (induction specs) (auto simp: single)
  then show ?thesis
    by (simp add: checkCircularSpecialization_def truthy_def)
qed

text \<open>
  Claim C6, as amended. For every node of type \<^verbatim>\<open>PartDefinition\<close> or \<^verbatim>\<open>TypeBodyRule\<close> with a
  name \<open>n\<close> that is not empty, the errors of the validation of the node are one error
  for each single-part qualified name \<open>n\<close> among its specializations, with the message
  \<^verbatim>\<open>Part definition 'n' cannot specialize itself\<close>: the kind in the message is always
  \<^verbatim>\<open>Part definition\<close>.
\<close>

theorem self_specialization:
  assumes "ntype nd = ''PartDefinition'' \<or> ntype nd = ''TypeBodyRule''"
    and "name nd = Some n" and "n \<noteq> []"
  shows "filter (\<lambda>d. aseverity d = ''error'') (validateNode nd)
           = replicate (length (filter (\<lambda>s. s = [n]) (specializations nd)))
               \<lparr>aseverity = ''error'',
                amessage = ''Part definition '' @ sq @ n @ sq @ '' cannot specialize itself'',
                anode = nd, aproperty = Some ''specializations''\<rparr>"
  using assms(1)
proof
  assume t: "ntype nd = ''PartDefinition''"
  then have "validateNode nd = checkPartDefinition nd"
    by (simp add: validateNode_def validationChecks_def isSubtype_def)
  with t assms(2,3) show ?thesis
    by (simp add: checkPartDefinition_def checkCircularSpecialization_eq Let_def)
next
  assume t: "ntype nd = ''TypeBodyRule''"
  then have "validateNode nd = checkPartDefinition nd @ checkTypeBodyRule nd"
    by (simp add: validateNode_def validationChecks_def isSubtype_def)
  with t assms(2,3) show ?thesis
    by (simp add: checkPartDefinition_def checkTypeBodyRule_def checkCircularSpecialization_eq Let_def)
qed

text \<open>The theorem at \<^verbatim>\<open>part def A :> A;\<close>: one error.\<close>

theorem self_specialization_witness:
  "filter (\<lambda>d. aseverity d = ''error'')
     (validateNode (Node ''PartDefinition'' (Some ''A'') None None [] None [[''A'']] False []))
   = [\<lparr>aseverity = ''error'',
       amessage = ''Part definition '' @ sq @ ''A'' @ sq @ '' cannot specialize itself'',
       anode = Node ''PartDefinition'' (Some ''A'') None None [] None [[''A'']] False [],
       aproperty = Some ''specializations''\<rparr>]"
  using self_specialization [of "Node ''PartDefinition'' (Some ''A'') None None [] None [[''A'']] False []" "''A''"]
  by simp

text \<open>
  The claim as it is stated, for a definition of any kind, fails at
  \<^verbatim>\<open>attribute def A :> A;\<close>: the node has the name \<open>A\<close> and the specialization \<open>A\<close>, and its
  validation gives no diagnostic.
\<close>

theorem self_specialization_counterexample:
  "name (Node ''AttributeDefinition'' (Some ''A'') None None [] None [[''A'']] False []) = Some ''A''
   \<and> specializations (Node ''AttributeDefinition'' (Some ''A'') None None [] None [[''A'']] False [])
       = [[''A'']]
   \<and> validateNode (Node ''AttributeDefinition'' (Some ''A'') None None [] None [[''A'']] False []) = []"
  by code_simp



section \<open>Properties of the simplification of parser errors\<close>

text \<open>
  Claim C8. The message is to end with \<^verbatim>\<open>, ...\<close> exactly when there are more alternatives
  than the listed ones. The function at a message with two alternatives: both are listed
  and \<^verbatim>\<open>, ...\<close> is appended. The function at a message with six alternatives: five are
  listed and nothing is appended.
\<close>

theorem simplifyParserError_more_alternatives:
  "simplifyParserError
     (''Expecting: one of these possible Token sequences:'' @ lf
       @ ''  1. [ID]'' @ lf @ ''  2. [part, def]'' @ lf @ ''but found: '' @ sq @ ''x'' @ sq)
     = ''Unexpected '' @ sq @ ''x'' @ sq @ ''. Expected: ID, part, def, ...''
   \<and> simplifyParserError
     (''Expecting: one of these possible Token sequences:'' @ lf
       @ ''  1. [A]'' @ lf @ ''  2. [B]'' @ lf @ ''  3. [C]'' @ lf @ ''  4. [D]'' @ lf
       @ ''  5. [E]'' @ lf @ ''  6. [F]'' @ lf @ ''but found: '' @ sq @ ''x'' @ sq)
     = ''Unexpected '' @ sq @ ''x'' @ sq @ ''. Expected: A, B, C, D, E''"
  by code_simp



section \<open>Properties of the exports and of the local scopes\<close>

declare processNamespaceElement.simps [simp del] processDefinitionOrUsage.simps [simp del]
  processNestedElements.simps [simp del]

lemma processEach_set:
  "set (processEach ms qn path)
     = (\<Union>(i, m) \<in> set ms. set (processNamespaceElement m qn (path @ [i])))"
  by (induction ms) auto

lemma processNamespaceElement_exposed:
  "processNamespaceElement m qn path =
     (case exposed m of None \<Rightarrow> [] | Some e \<Rightarrow> processDefinitionOrUsage e qn path)"
  by (auto simp: processNamespaceElement.simps exposed_def split: option.splits)

lemma members_set: "set (members c) = {(i, m). i < length (elements c) \<and> m = elements c ! i}"
  by (auto simp: members_def in_set_enumerate_eq)

lemma processNestedElements_set:
  "set (processNestedElements c qn path)
     = (\<Union>i \<in> {..<length (elements c)}.
          set (processNamespaceElement (elements c ! i) qn (path @ [i])))"
proof -
  have skip: "\<not> isOwningMembership m \<Longrightarrow> processNamespaceElement m qn p = []" for m p
    by (simp add: processNamespaceElement.simps)
  have "processEach (filter (\<lambda>(i, m). isOwningMembership m) ms) qn path
          = processEach ms qn path" for ms
    by (induction ms) (simp_all add: skip split: prod.splits)
  then have own: "set (processEach (owningMembers c) qn path) = set (processEach (members c) qn path)"
    by (simp add: owningMembers_def)
  have "set (processNestedElements c qn path) = set (processEach (members c) qn path)"
    by (simp add: processNestedElements.simps own)
  then show ?thesis
    by (auto simp: processEach_set members_set)
qed

lemma computeExports_set:
  "set (computeExports root) = set (processNestedElements root [] [])"
  by (auto simp: computeExports_def processEach_set members_set processNestedElements_set)

lemma size_member: "m \<in> set (elements c) \<Longrightarrow> size m < size c"
proof -
  assume m: "m \<in> set (elements c)"
  have "x \<in> set xs \<Longrightarrow> size x \<le> size_list size xs" for x :: node and xs
    by (induction xs) auto
  from this [OF m] show ?thesis
    by (cases c) auto
qed

lemma size_exposed: "i < length (elements c) \<Longrightarrow> exposed (elements c ! i) = Some e \<Longrightarrow> size e < size c"
proof -
  assume i: "i < length (elements c)" and e: "exposed (elements c ! i) = Some e"
  from e have "element (elements c ! i) = Some e"
    by (auto simp: exposed_def split: if_splits)
  then have "size e < size (elements c ! i)" by (rule size_element)
  moreover from i have "size (elements c ! i) < size c"
    by (intro size_member nth_mem)
  ultimately show ?thesis by simp
qed

lemma exports_sound:
  "d \<in> set (processNestedElements c qn path) \<Longrightarrow>
   \<exists>p pre e. p \<noteq> [] \<and> dpath d = path @ p \<and> descend c qn p = Some (pre, e) \<and> entryOf d pre e"
proof (induction c arbitrary: qn path rule: measure_induct_rule [of size])
  case (less c)
  from less.prems obtain i where i: "i < length (elements c)"
    and d: "d \<in> set (processNamespaceElement (elements c ! i) qn (path @ [i]))"
    by (auto simp: processNestedElements_set)
  from d obtain e where e: "exposed (elements c ! i) = Some e"
    and de: "d \<in> set (processDefinitionOrUsage e qn (path @ [i]))"
    by (cases "exposed (elements c ! i)") (auto simp: processNamespaceElement_exposed)
  from de have t: "truthy (getElementName e)"
    by (auto simp: processDefinitionOrUsage.simps split: if_splits)
  let ?n = "the (getElementName e)"
  from de t consider
      (own) "d = createDescription e ?n (path @ [i])"
    | (qual) "qn \<noteq> []" "d = createDescription e (join ''::'' (qn @ [?n])) (path @ [i])"
    | (nested) "d \<in> set (processNestedElements e (qn @ [?n]) (path @ [i]))"
    by (auto simp: processDefinitionOrUsage.simps Let_def split: if_splits)
  then show ?case
  proof cases
    case own
    with i e t have "dpath d = path @ [i] \<and> descend c qn [i] = Some (qn, e) \<and> entryOf d qn e"
      by (simp add: createDescription_def entryOf_def)
    then show ?thesis by blast
  next
    case qual
    with i e t have "dpath d = path @ [i] \<and> descend c qn [i] = Some (qn, e) \<and> entryOf d qn e"
      by (simp add: createDescription_def entryOf_def)
    then show ?thesis by blast
  next
    case nested
    from size_exposed [OF i e] have "size e < size c" .
    from less.IH [OF this nested] obtain p pre e'
      where p: "p \<noteq> []" "dpath d = (path @ [i]) @ p"
        "descend e (qn @ [?n]) p = Some (pre, e')" "entryOf d pre e'"
      by blast
    with i e t have "dpath d = path @ (i # p) \<and> descend c qn (i # p) = Some (pre, e') \<and> entryOf d pre e'"
      by simp
    then show ?thesis by blast
  qed
qed

lemma exports_complete:
  "descend c qn p = Some (pre, e) \<Longrightarrow> truthy (getElementName e) \<Longrightarrow>
   createDescription e (the (getElementName e)) (path @ p) \<in> set (processNestedElements c qn path)
   \<and> (pre \<noteq> [] \<longrightarrow>
        createDescription e (join ''::'' (pre @ [the (getElementName e)])) (path @ p)
          \<in> set (processNestedElements c qn path))"
proof (induction c qn p arbitrary: path rule: descend.induct)
  case (1 c pre')
  then show ?case by simp
next
  case (2 c qn i p)
  from "2.prems"(1) have i: "i < length (elements c)"
    by (auto split: if_splits)
  with "2.prems"(1) obtain a where a: "exposed (elements c ! i) = Some a"
    by (auto split: option.splits)
  have into: "set (processDefinitionOrUsage a qn (path @ [i])) \<subseteq> set (processNestedElements c qn path)"
    using i a by (auto simp: processNestedElements_set processNamespaceElement_exposed)
  show ?case
  proof (cases "p = []")
    case True
    with "2.prems" i a have "a = e" "pre = qn" by auto
    with True "2.prems"(2) into show ?thesis
      by (auto simp: processDefinitionOrUsage.simps Let_def)
  next
    case False
    with "2.prems"(1) i a have t: "truthy (getElementName a)"
      and d: "descend a (qn @ [the (getElementName a)]) p = Some (pre, e)"
      by (auto split: if_splits)
    from "2.IH" [OF i a False t d "2.prems"(2), of "path @ [i]"]
    have "createDescription e (the (getElementName e)) (path @ i # p)
            \<in> set (processNestedElements a (qn @ [the (getElementName a)]) (path @ [i]))
          \<and> (pre \<noteq> [] \<longrightarrow>
              createDescription e (join ''::'' (pre @ [the (getElementName e)])) (path @ i # p)
                \<in> set (processNestedElements a (qn @ [the (getElementName a)]) (path @ [i])))"
      by simp
    moreover have "set (processNestedElements a (qn @ [the (getElementName a)]) (path @ [i]))
                   \<subseteq> set (processDefinitionOrUsage a qn (path @ [i]))"
      using t by (auto simp: processDefinitionOrUsage.simps Let_def)
    ultimately show ?thesis using into by blast
  qed
qed

lemma descend_nodeAt: "descend c qn p = Some (pre, e) \<Longrightarrow> nodeAt c p = Some e"
proof (induction c qn p rule: descend.induct)
  case (1 c pre')
  then show ?case by simp
next
  case (2 c qn i p)
  then show ?case
    by (cases "p = []") (auto simp: exposed_def split: if_splits option.splits)
qed

lemma descend_members:
  "descend c qn p = Some (pre, e) \<Longrightarrow> q \<noteq> [] \<Longrightarrow> prefix q p \<Longrightarrow>
   \<exists>m. memberAt c q = Some m \<and> isOwningMembership m
       \<and> visibility m \<noteq> Some ''private'' \<and> visibility m \<noteq> Some ''protected''"
proof (induction c qn p arbitrary: q rule: descend.induct)
  case (1 c pre')
  then show ?case by simp
next
  case (2 c qn i p)
  from "2.prems"(2,3) obtain q' where q: "q = i # q'" and q': "prefix q' p"
    by (cases q) auto
  from "2.prems"(1) have i: "i < length (elements c)"
    by (auto split: if_splits)
  with "2.prems"(1) obtain a where a: "exposed (elements c ! i) = Some a"
    by (auto split: option.splits)
  then have m: "isOwningMembership (elements c ! i)"
      "visibility (elements c ! i) \<noteq> Some ''private''"
      "visibility (elements c ! i) \<noteq> Some ''protected''"
      "element (elements c ! i) = Some a"
    by (auto simp: exposed_def split: if_splits)
  show ?case
  proof (cases "q' = []")
    case True
    with q i m show ?thesis by simp
  next
    case False
    with q' have p: "p \<noteq> []" by auto
    with "2.prems"(1) i a have t: "truthy (getElementName a)"
      and d: "descend a (qn @ [the (getElementName a)]) p = Some (pre, e)"
      by (auto split: if_splits)
    from "2.IH" [OF i a p t d False q'] q i m False show ?thesis by simp
  qed
qed

lemma descend_named:
  "descend c qn p = Some (pre, e) \<Longrightarrow> q \<noteq> [] \<Longrightarrow> strict_prefix q p \<Longrightarrow>
   \<exists>a. nodeAt c q = Some a \<and> truthy (getElementName a)"
proof (induction c qn p arbitrary: q rule: descend.induct)
  case (1 c pre')
  then show ?case by simp
next
  case (2 c qn i p)
  from "2.prems"(2,3) obtain q' where q: "q = i # q'" and q': "strict_prefix q' p"
    by (cases q) auto
  then have p: "p \<noteq> []" by auto
  from "2.prems"(1) have i: "i < length (elements c)"
    by (auto split: if_splits)
  with "2.prems"(1) obtain a where a: "exposed (elements c ! i) = Some a"
    by (auto split: option.splits)
  then have m: "element (elements c ! i) = Some a"
    by (auto simp: exposed_def split: if_splits)
  from "2.prems"(1) i a p have t: "truthy (getElementName a)"
    and d: "descend a (qn @ [the (getElementName a)]) p = Some (pre, e)"
    by (auto split: if_splits)
  show ?case
  proof (cases "q' = []")
    case True
    with q i m t show ?thesis by simp
  next
    case False
    from "2.IH" [OF i a p t d False q'] q i m show ?thesis by simp
  qed
qed

declare processNestedLocalScopes.simps [simp del]

lemma processLocalScopes_filter:
  "processLocalScopes cp (filter (\<lambda>(i, m). isOwningMembership m) ms) = processLocalScopes cp ms"
  by (induction ms) (simp_all split: prod.splits)

lemma processNestedLocalScopes_members:
  "processNestedLocalScopes c path = processLocalScopes path (members c)"
  by (simp add: processNestedLocalScopes.simps owningMembers_def processLocalScopes_filter)

lemma processLocalScopes_set:
  "kd \<in> set (processLocalScopes cp ms) \<Longrightarrow>
   \<exists>i m e. (i, m) \<in> set ms \<and> element m = Some e \<and> truthy (getElementName e)
     \<and> (kd = (cp, createDescription e (the (getElementName e)) (cp @ [i]))
         \<or> kd \<in> set (processNestedLocalScopes e (cp @ [i])))"
proof (induction ms)
  case Nil
  then show ?case by simp
next
  case (Cons im ms)
  obtain i m where im: "im = (i, m)" by (cases im)
  show ?case
  proof (cases "kd \<in> set (processLocalScopes cp ms)")
    case True
    from Cons.IH [OF True] show ?thesis by auto
  next
    case False
    with Cons.prems im have
      "element m \<noteq> None \<and> truthy (getElementName (the (element m)))
       \<and> (kd = (cp, createDescription (the (element m)) (the (getElementName (the (element m)))) (cp @ [i]))
           \<or> kd \<in> set (processNestedLocalScopes (the (element m)) (cp @ [i])))"
      by (auto simp: Let_def split: if_splits)
    with im show ?thesis
      by (intro exI [of _ i] exI [of _ m] exI [of _ "the (element m)"]) auto
  qed
qed

lemma size_owned: "i < length (elements c) \<Longrightarrow> element (elements c ! i) = Some e \<Longrightarrow> size e < size c"
proof -
  assume i: "i < length (elements c)" and e: "element (elements c ! i) = Some e"
  from e have "size e < size (elements c ! i)" by (rule size_element)
  moreover from i have "size (elements c ! i) < size c"
    by (intro size_member nth_mem)
  ultimately show ?thesis by simp
qed

lemma local_scopes_named:
  "kd \<in> set (processNestedLocalScopes c path) \<Longrightarrow>
   \<exists>p. p \<noteq> [] \<and> dpath (snd kd) = path @ p
     \<and> (\<forall>q. q \<noteq> [] \<and> strict_prefix q p \<longrightarrow> (\<exists>a. nodeAt c q = Some a \<and> truthy (getElementName a)))"
proof (induction c arbitrary: path rule: measure_induct_rule [of size])
  case (less c)
  from less.prems have "kd \<in> set (processLocalScopes path (members c))"
    by (simp add: processNestedLocalScopes_members)
  from processLocalScopes_set [OF this] obtain i m e
    where im: "(i, m) \<in> set (members c)" and e: "element m = Some e"
      and t: "truthy (getElementName e)"
      and kd: "kd = (path, createDescription e (the (getElementName e)) (path @ [i]))
               \<or> kd \<in> set (processNestedLocalScopes e (path @ [i]))"
    by blast
  from im have i: "i < length (elements c)" and m: "m = elements c ! i"
    by (auto simp: members_set)
  from kd show ?case
  proof
    assume "kd = (path, createDescription e (the (getElementName e)) (path @ [i]))"
    then have "dpath (snd kd) = path @ [i]"
      by (simp add: createDescription_def)
    moreover have "\<forall>q. q \<noteq> [] \<and> strict_prefix q [i]
        \<longrightarrow> (\<exists>a. nodeAt c q = Some a \<and> truthy (getElementName a))"
      by (auto simp: strict_prefix_def prefix_Cons)
    ultimately show ?thesis by blast
  next
    assume nested: "kd \<in> set (processNestedLocalScopes e (path @ [i]))"
    from i e m have "size e < size c" by (auto intro: size_owned)
    from less.IH [OF this nested] obtain p
      where p: "p \<noteq> []" "dpath (snd kd) = (path @ [i]) @ p"
        and anc: "\<forall>q. q \<noteq> [] \<and> strict_prefix q p
                  \<longrightarrow> (\<exists>a. nodeAt e q = Some a \<and> truthy (getElementName a))"
      by blast
    have "\<exists>a. nodeAt c q = Some a \<and> truthy (getElementName a)"
      if q: "q \<noteq> []" "strict_prefix q (i # p)" for q
    proof -
      from q obtain q' where qq: "q = i # q'" and q': "strict_prefix q' p"
        by (cases q) auto
      show ?thesis
      proof (cases "q' = []")
        case True
        with qq i e m t show ?thesis by simp
      next
        case False
        with anc q' obtain a where "nodeAt e q' = Some a" "truthy (getElementName a)"
          by blast
        with qq i e m show ?thesis by simp
      qed
    qed
    with p show ?thesis
      by (intro exI [of _ "i # p"]) simp
  qed
qed

lemma computeLocalScopes_nested:
  "computeLocalScopes root = processNestedLocalScopes root []"
  by (simp add: computeLocalScopes_def processNestedLocalScopes_members)

text \<open>
  Claim C1, as amended. For every document: an element that the traversal visits at a
  position \<open>p\<close> under the prefix \<open>pre\<close>, with a name \<open>n\<close>, has an entry under \<open>n\<close> and, when
  the prefix is not empty, an entry under the qualified name, the parts of the prefix and
  \<open>n\<close> joined by \<^verbatim>\<open>::\<close>; every entry of the exports is one of these two for a visited
  element, so an element of the root has the entry under its name only; and every member
  on the way to an exported element is neither private nor protected, so a private or
  protected membership contributes no entry, for its element or for anything below it.
\<close>

theorem exports_of_visited:
  "(descend root [] p = Some (pre, e) \<and> getElementName e = Some n \<and> n \<noteq> [] \<longrightarrow>
      \<lparr>dname = n, dtype = ntype e, dpath = p\<rparr> \<in> set (computeExports root)
      \<and> (pre \<noteq> [] \<longrightarrow>
           \<lparr>dname = join ''::'' (pre @ [n]), dtype = ntype e, dpath = p\<rparr>
             \<in> set (computeExports root)))
   \<and> (d \<in> set (computeExports root) \<longrightarrow>
        (\<exists>pre' e' n'. descend root [] (dpath d) = Some (pre', e')
           \<and> getElementName e' = Some n' \<and> n' \<noteq> [] \<and> dtype d = ntype e'
           \<and> (dname d = n' \<or> (pre' \<noteq> [] \<and> dname d = join ''::'' (pre' @ [n'])))))
   \<and> (d \<in> set (computeExports root) \<and> q \<noteq> [] \<and> prefix q (dpath d) \<longrightarrow>
        (\<exists>m. memberAt root q = Some m
           \<and> visibility m \<noteq> Some ''private'' \<and> visibility m \<noteq> Some ''protected''))"
proof (intro conjI impI)
  assume a: "descend root [] p = Some (pre, e) \<and> getElementName e = Some n \<and> n \<noteq> []"
  then have t: "truthy (getElementName e)" by (simp add: truthy_def)
  from a exports_complete [of root "[]" p pre e "[]", OF _ t]
  show "\<lparr>dname = n, dtype = ntype e, dpath = p\<rparr> \<in> set (computeExports root)"
    by (simp add: computeExports_set createDescription_def)
  assume "pre \<noteq> []"
  with a exports_complete [of root "[]" p pre e "[]", OF _ t]
  show "\<lparr>dname = join ''::'' (pre @ [n]), dtype = ntype e, dpath = p\<rparr> \<in> set (computeExports root)"
    by (simp add: computeExports_set createDescription_def)
next
  assume "d \<in> set (computeExports root)"
  then have "d \<in> set (processNestedElements root [] [])"
    by (simp add: computeExports_set)
  from exports_sound [OF this] obtain p' pre' e'
    where "dpath d = p'" "descend root [] p' = Some (pre', e')" "entryOf d pre' e'"
    by auto
  then show "\<exists>pre' e' n'. descend root [] (dpath d) = Some (pre', e')
           \<and> getElementName e' = Some n' \<and> n' \<noteq> [] \<and> dtype d = ntype e'
           \<and> (dname d = n' \<or> (pre' \<noteq> [] \<and> dname d = join ''::'' (pre' @ [n'])))"
    by (auto simp: entryOf_def truthy_def split: option.splits)
next
  assume a: "d \<in> set (computeExports root) \<and> q \<noteq> [] \<and> prefix q (dpath d)"
  then have "d \<in> set (processNestedElements root [] [])"
    by (simp add: computeExports_set)
  from exports_sound [OF this] obtain p' pre' e'
    where "dpath d = p'" "descend root [] p' = Some (pre', e')"
    by auto
  with a descend_members [of root "[]" p' pre' e' q]
  show "\<exists>m. memberAt root q = Some m
           \<and> visibility m \<noteq> Some ''private'' \<and> visibility m \<noteq> Some ''protected''"
    by auto
qed

text \<open>The theorem at \<^verbatim>\<open>package P { part def X; private part def Y; }\<close>.\<close>

theorem exports_of_visited_witness:
  "descend (parent ''RootNamespace'' None
      [owning (parent ''PackageBody'' (Some ''P'')
         [owning (named ''PartDefinition'' ''X''),
          memberWith ''private'' (named ''PartDefinition'' ''Y'')])]) [] [0, 0]
     = Some ([''P''], named ''PartDefinition'' ''X'')
   \<and> \<lparr>dname = ''X'', dtype = ''PartDefinition'', dpath = [0, 0]\<rparr>
       \<in> set (computeExports (parent ''RootNamespace'' None
            [owning (parent ''PackageBody'' (Some ''P'')
               [owning (named ''PartDefinition'' ''X''),
                memberWith ''private'' (named ''PartDefinition'' ''Y'')])]))
   \<and> \<lparr>dname = ''P::X'', dtype = ''PartDefinition'', dpath = [0, 0]\<rparr>
       \<in> set (computeExports (parent ''RootNamespace'' None
            [owning (parent ''PackageBody'' (Some ''P'')
               [owning (named ''PartDefinition'' ''X''),
                memberWith ''private'' (named ''PartDefinition'' ''Y'')])]))
   \<and> computeExports (parent ''RootNamespace'' None
            [owning (parent ''PackageBody'' (Some ''P'')
               [owning (named ''PartDefinition'' ''X''),
                memberWith ''private'' (named ''PartDefinition'' ''Y'')])])
       = [\<lparr>dname = ''P'', dtype = ''PackageBody'', dpath = [0]\<rparr>,
          \<lparr>dname = ''X'', dtype = ''PartDefinition'', dpath = [0, 0]\<rparr>,
          \<lparr>dname = ''P::X'', dtype = ''PartDefinition'', dpath = [0, 0]\<rparr>]"
proof -
  let ?doc = "parent ''RootNamespace'' None
      [owning (parent ''PackageBody'' (Some ''P'')
         [owning (named ''PartDefinition'' ''X''),
          memberWith ''private'' (named ''PartDefinition'' ''Y'')])]"
  have h: "descend ?doc [] [0, 0] = Some ([''P''], named ''PartDefinition'' ''X'')"
    by code_simp
  have n: "getElementName (named ''PartDefinition'' ''X'') = Some ''X''"
    by code_simp
  have t: "ntype (named ''PartDefinition'' ''X'') = ''PartDefinition''"
    by code_simp
  have ex: "computeExports ?doc
       = [\<lparr>dname = ''P'', dtype = ''PackageBody'', dpath = [0]\<rparr>,
          \<lparr>dname = ''X'', dtype = ''PartDefinition'', dpath = [0, 0]\<rparr>,
          \<lparr>dname = ''P::X'', dtype = ''PartDefinition'', dpath = [0, 0]\<rparr>]"
    by code_simp
  from exports_of_visited [of ?doc "[0, 0]" "[''P'']" "named ''PartDefinition'' ''X''" "''X''"] h n t
  have "\<lparr>dname = ''X'', dtype = ''PartDefinition'', dpath = [0, 0]\<rparr> \<in> set (computeExports ?doc)
      \<and> \<lparr>dname = ''P::X'', dtype = ''PartDefinition'', dpath = [0, 0]\<rparr> \<in> set (computeExports ?doc)"
    by simp
  with h ex show ?thesis by simp
qed

text \<open>
  The claim as it is stated, an entry under the name and an entry under the prefix,
  \<^verbatim>\<open>::\<close> and the name, fails at \<^verbatim>\<open>part def A;\<close>: the element is visited under the empty
  prefix and the exports are the one entry \<open>A\<close>.
\<close>

theorem exports_of_root_element_counterexample:
  "descend (parent ''RootNamespace'' None [owning (named ''PartDefinition'' ''A'')]) [] [0]
     = Some ([], named ''PartDefinition'' ''A'')
   \<and> computeExports (parent ''RootNamespace'' None [owning (named ''PartDefinition'' ''A'')])
       = [\<lparr>dname = ''A'', dtype = ''PartDefinition'', dpath = [0]\<rparr>]
   \<and> ''::A'' \<notin> set (map dname
         (computeExports (parent ''RootNamespace'' None [owning (named ''PartDefinition'' ''A'')])))"
  by code_simp

text \<open>
  Claim C9. For every document, every entry of the exports and every entry of the local
  scopes lies below named elements only: the node at every proper prefix of the position
  of the entry has a name. So nothing below an element without a name is exported or
  entered in a local scope.
\<close>

theorem unnamed_ends_descent:
  "(d \<in> set (computeExports root) \<or> (k, d) \<in> set (computeLocalScopes root)) \<and> q \<noteq> []
     \<and> strict_prefix q (dpath d)
   \<longrightarrow> (\<exists>a. nodeAt root q = Some a \<and> truthy (getElementName a))"
proof (intro impI)
  assume a: "(d \<in> set (computeExports root) \<or> (k, d) \<in> set (computeLocalScopes root)) \<and> q \<noteq> []
     \<and> strict_prefix q (dpath d)"
  then consider (exp) "d \<in> set (computeExports root)" | (loc) "(k, d) \<in> set (computeLocalScopes root)"
    by blast
  then show "\<exists>a. nodeAt root q = Some a \<and> truthy (getElementName a)"
  proof cases
    case exp
    then have "d \<in> set (processNestedElements root [] [])"
      by (simp add: computeExports_set)
    from exports_sound [OF this] obtain p' pre' e'
      where "dpath d = p'" "descend root [] p' = Some (pre', e')"
      by auto
    with a descend_named [of root "[]" p' pre' e' q] show ?thesis by auto
  next
    case loc
    then have "(k, d) \<in> set (processNestedLocalScopes root [])"
      by (simp add: computeLocalScopes_nested)
    from local_scopes_named [OF this] a show ?thesis by auto
  qed
qed

text \<open>The theorem at \<^verbatim>\<open>package { part def X; } package P { part def Y; }\<close>: \<open>X\<close> is in
  neither list.\<close>

theorem unnamed_ends_descent_witness:
  "computeExports (parent ''RootNamespace'' None
      [owning (parent ''PackageBody'' None [owning (named ''PartDefinition'' ''X'')]),
       owning (parent ''PackageBody'' (Some ''P'') [owning (named ''PartDefinition'' ''Y'')])])
     = [\<lparr>dname = ''P'', dtype = ''PackageBody'', dpath = [1]\<rparr>,
        \<lparr>dname = ''Y'', dtype = ''PartDefinition'', dpath = [1, 0]\<rparr>,
        \<lparr>dname = ''P::Y'', dtype = ''PartDefinition'', dpath = [1, 0]\<rparr>]
   \<and> computeLocalScopes (parent ''RootNamespace'' None
      [owning (parent ''PackageBody'' None [owning (named ''PartDefinition'' ''X'')]),
       owning (parent ''PackageBody'' (Some ''P'') [owning (named ''PartDefinition'' ''Y'')])])
     = [([], \<lparr>dname = ''P'', dtype = ''PackageBody'', dpath = [1]\<rparr>),
        ([1], \<lparr>dname = ''Y'', dtype = ''PartDefinition'', dpath = [1, 0]\<rparr>)]
   \<and> (\<exists>a. nodeAt (parent ''RootNamespace'' None
      [owning (parent ''PackageBody'' None [owning (named ''PartDefinition'' ''X'')]),
       owning (parent ''PackageBody'' (Some ''P'') [owning (named ''PartDefinition'' ''Y'')])]) [1]
          = Some a \<and> truthy (getElementName a))"
proof -
  let ?doc = "parent ''RootNamespace'' None
      [owning (parent ''PackageBody'' None [owning (named ''PartDefinition'' ''X'')]),
       owning (parent ''PackageBody'' (Some ''P'') [owning (named ''PartDefinition'' ''Y'')])]"
  have ex: "computeExports ?doc
     = [\<lparr>dname = ''P'', dtype = ''PackageBody'', dpath = [1]\<rparr>,
        \<lparr>dname = ''Y'', dtype = ''PartDefinition'', dpath = [1, 0]\<rparr>,
        \<lparr>dname = ''P::Y'', dtype = ''PartDefinition'', dpath = [1, 0]\<rparr>]"
    by code_simp
  have lo: "computeLocalScopes ?doc
     = [([], \<lparr>dname = ''P'', dtype = ''PackageBody'', dpath = [1]\<rparr>),
        ([1], \<lparr>dname = ''Y'', dtype = ''PartDefinition'', dpath = [1, 0]\<rparr>)]"
    by code_simp
  from unnamed_ends_descent [of "\<lparr>dname = ''Y'', dtype = ''PartDefinition'', dpath = [1, 0]\<rparr>"
      ?doc "[1]" "[1]"] ex
  have "\<exists>a. nodeAt ?doc [1] = Some a \<and> truthy (getElementName a)"
    by simp
  with ex lo show ?thesis by simp
qed



section \<open>Properties of the scope provider\<close>

lemma startsWith_iff: "startsWith s p = (\<exists>r. s = p @ r)"
proof
  assume "startsWith s p"
  then have "s = p @ drop (length p) s"
    by (metis append_take_drop_id startsWith_def)
  then show "\<exists>r. s = p @ r" ..
next
  assume "\<exists>r. s = p @ r"
  then show "startsWith s p"
    by (auto simp: startsWith_def)
qed

lemma includesStr_iff: "includesStr s p = (\<exists>u v. s = u @ p @ v)"
proof (induction s)
  case Nil
  then show ?case by auto
next
  case (Cons c cs)
  show ?case
  proof
    assume "includesStr (c # cs) p"
    then consider "startsWith (c # cs) p" | "includesStr cs p" by auto
    then show "\<exists>u v. c # cs = u @ p @ v"
    proof cases
      case 1
      then obtain r where "c # cs = p @ r" by (auto simp: startsWith_iff)
      then have "c # cs = [] @ p @ r" by simp
      then show ?thesis by blast
    next
      case 2
      with Cons.IH obtain u v where "cs = u @ p @ v" by auto
      then have "c # cs = (c # u) @ p @ v" by simp
      then show ?thesis by blast
    qed
  next
    assume "\<exists>u v. c # cs = u @ p @ v"
    then obtain u v where uv: "c # cs = u @ p @ v" by blast
    show "includesStr (c # cs) p"
    proof (cases u)
      case Nil
      with uv have "startsWith (c # cs) p" by (auto simp: startsWith_iff)
      then show ?thesis by simp
    next
      case (Cons a u')
      with uv have "cs = u' @ p @ v" by simp
      with Cons.IH have "includesStr cs p" by blast
      then show ?thesis by simp
    qed
  qed
qed

lemma direct_child_iff:
  "(if startsWith s (P @ ''::'') then \<not> includesStr (substring s (length P + 2)) ''::'' else False)
   = (\<exists>r. s = P @ ''::'' @ r \<and> \<not> (\<exists>u v. r = u @ ''::'' @ v))"
proof (cases "startsWith s (P @ ''::'')")
  case True
  then obtain r where r: "s = P @ ''::'' @ r"
    by (auto simp: startsWith_iff)
  then have "substring s (length P + 2) = r"
    by (simp add: substring_def)
  with True r show ?thesis
    by (auto simp: includesStr_iff)
next
  case False
  then show ?thesis
    by (auto simp: startsWith_iff)
qed

text \<open>The local descriptions of a position: the named owned elements of the root and of
  the package bodies on the way from the position up to the root, those of an inner
  container before those of an outer one.\<close>

declare containerChain.simps [simp del]

lemma collectEach_set:
  "l \<in> set (collectEach path ms) =
     (\<exists>i m e n. (i, m) \<in> set ms \<and> isOwningMembership m \<and> element m = Some e
        \<and> getElementName e = Some n \<and> n \<noteq> []
        \<and> l = \<lparr>lname = n, lnode = e, lpath = path @ [i]\<rparr>)"
proof (induction ms)
  case Nil
  then show ?case by simp
next
  case (Cons im ms)
  obtain i m where im: "im = (i, m)" by (cases im)
  have here: "l \<in> set (if isOwningMembership m \<and> element m \<noteq> None then
        let nm = getElementName (the (element m))
        in if truthy nm
           then [\<lparr>lname = the nm, lnode = the (element m), lpath = path @ [i]\<rparr>]
           else []
      else [])
     = (\<exists>e n. isOwningMembership m \<and> element m = Some e
        \<and> getElementName e = Some n \<and> n \<noteq> []
        \<and> l = \<lparr>lname = n, lnode = e, lpath = path @ [i]\<rparr>)"
    by (auto simp: Let_def truthy_def split: option.splits)
  show ?case
    unfolding im collectEach.simps set_append Un_iff here Cons.IH
    by auto
qed

lemma containerChain_set:
  "set (containerChain root pos) = {(q, c). prefix q pos \<and> nodeAt root q = Some c}"
proof (induction root pos rule: containerChain.induct)
  case (1 root pos)
  show ?case
  proof (cases "pos = []")
    case True
    then show ?thesis
      by (subst containerChain.simps) (auto split: option.splits)
  next
    case False
    then have snoc: "pos = butlast pos @ [last pos]" by simp
    have pre: "prefix q pos = (q = pos \<or> prefix q (butlast pos))" for q
      by (subst snoc, subst prefix_snoc) (use snoc in auto)
    from "1.IH" [OF False] False show ?thesis
      by (subst containerChain.simps) (auto simp: pre split: option.splits)
  qed
qed

lemma containerChain_length: "(q, c) \<in> set (containerChain root pos) \<Longrightarrow> length q \<le> length pos"
  by (auto simp: containerChain_set prefix_length_le)

lemma collectVisibleNames_length:
  "l \<in> set (collectVisibleNames c path) \<Longrightarrow> length (lpath l) = Suc (length path)"
  by (auto simp: collectVisibleNames_def collectEach_set split: if_splits)

lemma getLocalScopeDescriptions_length:
  "l \<in> set (getLocalScopeDescriptions root pos) \<Longrightarrow> length (lpath l) \<le> Suc (length pos)"
  by (auto simp: getLocalScopeDescriptions_def dest!: containerChain_length collectVisibleNames_length)

lemma getLocalScopeDescriptions_unfold:
  "getLocalScopeDescriptions root pos =
     (case nodeAt root pos of None \<Rightarrow> [] | Some n \<Rightarrow> collectVisibleNames n pos)
     @ (if pos = [] then [] else getLocalScopeDescriptions root (butlast pos))"
  unfolding getLocalScopeDescriptions_def
  by (subst containerChain.simps) (auto split: option.splits)

lemma getLocalScopeDescriptions_innermost_first:
  "sorted_wrt (\<lambda>a b. length (lpath b) \<le> length (lpath a)) (getLocalScopeDescriptions root pos)"
proof (induction pos rule: length_induct)
  case (1 pos)
  have all: "(\<forall>x \<in> set xs. \<forall>y \<in> set xs. Q x y) \<Longrightarrow> sorted_wrt Q xs"
    for Q :: "local_description \<Rightarrow> local_description \<Rightarrow> bool" and xs
    by (induction xs) auto
  have same: "sorted_wrt (\<lambda>a b. length (lpath b) \<le> length (lpath a)) (collectVisibleNames n pos)" for n
    by (rule all) (auto dest!: collectVisibleNames_length)
  show ?case
  proof (cases "pos = []")
    case True
    with same [of root] show ?thesis
      by (subst getLocalScopeDescriptions_unfold) (auto split: option.splits)
  next
    case False
    then have shorter: "length (butlast pos) < length pos" by simp
    from "1.IH" shorter
    have rest: "sorted_wrt (\<lambda>a b. length (lpath b) \<le> length (lpath a))
                  (getLocalScopeDescriptions root (butlast pos))"
      by blast
    have cross: "length (lpath b) \<le> length (lpath a)"
      if "a \<in> set (collectVisibleNames n pos)" "b \<in> set (getLocalScopeDescriptions root (butlast pos))"
      for a b n
      using collectVisibleNames_length [OF that(1)] getLocalScopeDescriptions_length [OF that(2)] False
      by simp
    from False rest show ?thesis
      by (subst getLocalScopeDescriptions_unfold)
         (auto simp: sorted_wrt_append same cross split: option.splits)
  qed
qed

lemma getLocalScopeDescriptions_set:
  "l \<in> set (getLocalScopeDescriptions root pos) =
     (\<exists>q c i e n. prefix q pos \<and> nodeAt root q = Some c
        \<and> (isRootNamespace c \<or> isPackageBody c)
        \<and> i < length (elements c) \<and> isOwningMembership (elements c ! i)
        \<and> element (elements c ! i) = Some e \<and> getElementName e = Some n \<and> n \<noteq> []
        \<and> l = \<lparr>lname = n, lnode = e, lpath = q @ [i]\<rparr>)"
proof
  assume "l \<in> set (getLocalScopeDescriptions root pos)"
  then obtain q c where qc: "(q, c) \<in> set (containerChain root pos)"
    and l: "l \<in> set (collectVisibleNames c q)"
    by (auto simp: getLocalScopeDescriptions_def)
  from l have t: "isRootNamespace c \<or> isPackageBody c" and le: "l \<in> set (collectEach q (members c))"
    by (auto simp: collectVisibleNames_def split: if_splits)
  from le obtain i m e n where "(i, m) \<in> set (members c)" "isOwningMembership m" "element m = Some e"
    "getElementName e = Some n" "n \<noteq> []" "l = \<lparr>lname = n, lnode = e, lpath = q @ [i]\<rparr>"
    unfolding collectEach_set by blast
  with qc t show "\<exists>q c i e n. prefix q pos \<and> nodeAt root q = Some c
        \<and> (isRootNamespace c \<or> isPackageBody c)
        \<and> i < length (elements c) \<and> isOwningMembership (elements c ! i)
        \<and> element (elements c ! i) = Some e \<and> getElementName e = Some n \<and> n \<noteq> []
        \<and> l = \<lparr>lname = n, lnode = e, lpath = q @ [i]\<rparr>"
    by (auto simp: containerChain_set members_set)
next
  assume "\<exists>q c i e n. prefix q pos \<and> nodeAt root q = Some c
        \<and> (isRootNamespace c \<or> isPackageBody c)
        \<and> i < length (elements c) \<and> isOwningMembership (elements c ! i)
        \<and> element (elements c ! i) = Some e \<and> getElementName e = Some n \<and> n \<noteq> []
        \<and> l = \<lparr>lname = n, lnode = e, lpath = q @ [i]\<rparr>"
  then obtain q c i e n where a: "prefix q pos" "nodeAt root q = Some c"
      "isRootNamespace c \<or> isPackageBody c" "i < length (elements c)"
      "isOwningMembership (elements c ! i)" "element (elements c ! i) = Some e"
      "getElementName e = Some n" "n \<noteq> []" "l = \<lparr>lname = n, lnode = e, lpath = q @ [i]\<rparr>"
    by blast
  then have "(i, elements c ! i) \<in> set (members c)"
    by (simp add: members_set)
  with a have "l \<in> set (collectEach q (members c))"
    unfolding collectEach_set by blast
  with a(3) have "l \<in> set (collectVisibleNames c q)"
    by (auto simp: collectVisibleNames_def)
  moreover from a have "(q, c) \<in> set (containerChain root pos)"
    by (simp add: containerChain_set)
  ultimately show "l \<in> set (getLocalScopeDescriptions root pos)"
    by (auto simp: getLocalScopeDescriptions_def)
qed

lemma nested_scope_direct_children:
  "0 < i \<Longrightarrow> index ctx = Some i \<Longrightarrow>
   getQualifiedNameScope allElements root ctx
     = map (\<lambda>d. d\<lparr>dname := drop (length (join ''::'' (take i (names ctx)) @ ''::'')) (dname d)\<rparr>)
         (filter (\<lambda>d. \<exists>r. dname d = join ''::'' (take i (names ctx)) @ ''::'' @ r
                        \<and> \<not> (\<exists>u v. r = u @ ''::'' @ v)) allElements)"
  by (auto simp: getQualifiedNameScope_def getNestedScope_def Let_def direct_child_iff substring_def)

lemma initial_scope_locals:
  assumes "index ctx = None \<or> index ctx = Some 0" and "isRootNamespace root"
  shows "\<exists>locals. getQualifiedNameScope allElements root ctx = allElements @ locals
     \<and> sorted_wrt (\<lambda>a b. length (dpath b) \<le> length (dpath a)) locals
     \<and> (\<forall>d. d \<in> set locals =
          (\<exists>q c j e n. prefix q (position ctx) \<and> nodeAt root q = Some c
             \<and> (isRootNamespace c \<or> isPackageBody c)
             \<and> j < length (elements c) \<and> isOwningMembership (elements c ! j)
             \<and> element (elements c ! j) = Some e \<and> getElementName e = Some n \<and> n \<noteq> []
             \<and> d = \<lparr>dname = n, dtype = ntype e, dpath = q @ [j]\<rparr>))"
proof -
  let ?f = "\<lambda>l. \<lparr>dname = lname l, dtype = ntype (lnode l), dpath = lpath l\<rparr>"
  let ?locals = "map ?f (getLocalScopeDescriptions root (position ctx))"
  from assms have "getQualifiedNameScope allElements root ctx = allElements @ ?locals"
    by (auto simp: getQualifiedNameScope_def getInitialScope_def)
  moreover have "sorted_wrt (\<lambda>a b. length (dpath b) \<le> length (dpath a)) ?locals"
    using getLocalScopeDescriptions_innermost_first [of root "position ctx"]
    by (simp add: sorted_wrt_map)
  moreover have "d \<in> set ?locals =
          (\<exists>q c j e n. prefix q (position ctx) \<and> nodeAt root q = Some c
             \<and> (isRootNamespace c \<or> isPackageBody c)
             \<and> j < length (elements c) \<and> isOwningMembership (elements c ! j)
             \<and> element (elements c ! j) = Some e \<and> getElementName e = Some n \<and> n \<noteq> []
             \<and> d = \<lparr>dname = n, dtype = ntype e, dpath = q @ [j]\<rparr>)" for d
  proof
    assume "d \<in> set ?locals"
    then obtain l where l: "l \<in> set (getLocalScopeDescriptions root (position ctx))" and d: "d = ?f l"
      by auto
    from l obtain q c j e n where "prefix q (position ctx)" "nodeAt root q = Some c"
        "isRootNamespace c \<or> isPackageBody c" "j < length (elements c)"
        "isOwningMembership (elements c ! j)" "element (elements c ! j) = Some e"
        "getElementName e = Some n" "n \<noteq> []" "l = \<lparr>lname = n, lnode = e, lpath = q @ [j]\<rparr>"
      unfolding getLocalScopeDescriptions_set by blast
    with d show "\<exists>q c j e n. prefix q (position ctx) \<and> nodeAt root q = Some c
             \<and> (isRootNamespace c \<or> isPackageBody c)
             \<and> j < length (elements c) \<and> isOwningMembership (elements c ! j)
             \<and> element (elements c ! j) = Some e \<and> getElementName e = Some n \<and> n \<noteq> []
             \<and> d = \<lparr>dname = n, dtype = ntype e, dpath = q @ [j]\<rparr>"
      by (intro exI [of _ q] exI [of _ c] exI [of _ j] exI [of _ e] exI [of _ n]) simp
  next
    assume "\<exists>q c j e n. prefix q (position ctx) \<and> nodeAt root q = Some c
             \<and> (isRootNamespace c \<or> isPackageBody c)
             \<and> j < length (elements c) \<and> isOwningMembership (elements c ! j)
             \<and> element (elements c ! j) = Some e \<and> getElementName e = Some n \<and> n \<noteq> []
             \<and> d = \<lparr>dname = n, dtype = ntype e, dpath = q @ [j]\<rparr>"
    then obtain q c j e n where a: "prefix q (position ctx)" "nodeAt root q = Some c"
        "isRootNamespace c \<or> isPackageBody c" "j < length (elements c)"
        "isOwningMembership (elements c ! j)" "element (elements c ! j) = Some e"
        "getElementName e = Some n" "n \<noteq> []"
      and d: "d = \<lparr>dname = n, dtype = ntype e, dpath = q @ [j]\<rparr>"
      by blast
    from a have "\<lparr>lname = n, lnode = e, lpath = q @ [j]\<rparr>
                   \<in> set (getLocalScopeDescriptions root (position ctx))"
      unfolding getLocalScopeDescriptions_set by blast
    then have "?f \<lparr>lname = n, lnode = e, lpath = q @ [j]\<rparr> \<in> set ?locals"
      unfolding set_map by (rule imageI)
    with d show "d \<in> set ?locals" by simp
  qed
  ultimately show ?thesis by blast
qed

text \<open>
  Claim C2. For a reference to the part \<open>i > 0\<close> of a qualified name, the scope is, in the
  order of the index, the entries whose name is the parts before \<open>i\<close> joined by \<^verbatim>\<open>::\<close>,
  then \<^verbatim>\<open>::\<close>, then a remainder that holds no \<^verbatim>\<open>::\<close>, each renamed to what follows that
  prefix, which is the remainder. For the part 0, or when no index is given, the scope is
  the combined initial scope: all entries of the index, unchanged and in their order,
  followed by the local descriptions, which are exactly the named elements owned by a
  member of the root or of a package body lying on the way from the position of the
  reference up to the root, each under its simple name, with its type and its position,
  those of an inner container before those of an outer one; when the root of the document
  is not a root namespace, that scope is empty.
\<close>

theorem nested_scope_entries:
  "(index ctx = Some i \<and> 0 < i \<longrightarrow>
      getQualifiedNameScope allElements root ctx
        = map (\<lambda>d. d\<lparr>dname := drop (length (join ''::'' (take i (names ctx)) @ ''::'')) (dname d)\<rparr>)
            (filter (\<lambda>d. \<exists>r. dname d = join ''::'' (take i (names ctx)) @ ''::'' @ r
                           \<and> \<not> (\<exists>u v. r = u @ ''::'' @ v)) allElements))
   \<and> ((index ctx = None \<or> index ctx = Some 0) \<and> isRootNamespace root \<longrightarrow>
        (\<exists>locals. getQualifiedNameScope allElements root ctx = allElements @ locals
           \<and> sorted_wrt (\<lambda>a b. length (dpath b) \<le> length (dpath a)) locals
           \<and> (\<forall>d. d \<in> set locals =
                (\<exists>q c j e n. prefix q (position ctx) \<and> nodeAt root q = Some c
                   \<and> (isRootNamespace c \<or> isPackageBody c)
                   \<and> j < length (elements c) \<and> isOwningMembership (elements c ! j)
                   \<and> element (elements c ! j) = Some e \<and> getElementName e = Some n \<and> n \<noteq> []
                   \<and> d = \<lparr>dname = n, dtype = ntype e, dpath = q @ [j]\<rparr>))))
   \<and> ((index ctx = None \<or> index ctx = Some 0) \<and> \<not> isRootNamespace root \<longrightarrow>
        getQualifiedNameScope allElements root ctx = [])"
proof (intro conjI impI)
  assume "index ctx = Some i \<and> 0 < i"
  then show "getQualifiedNameScope allElements root ctx
        = map (\<lambda>d. d\<lparr>dname := drop (length (join ''::'' (take i (names ctx)) @ ''::'')) (dname d)\<rparr>)
            (filter (\<lambda>d. \<exists>r. dname d = join ''::'' (take i (names ctx)) @ ''::'' @ r
                           \<and> \<not> (\<exists>u v. r = u @ ''::'' @ v)) allElements)"
    by (intro nested_scope_direct_children) simp_all
next
  assume "(index ctx = None \<or> index ctx = Some 0) \<and> isRootNamespace root"
  then show "\<exists>locals. getQualifiedNameScope allElements root ctx = allElements @ locals
           \<and> sorted_wrt (\<lambda>a b. length (dpath b) \<le> length (dpath a)) locals
           \<and> (\<forall>d. d \<in> set locals =
                (\<exists>q c j e n. prefix q (position ctx) \<and> nodeAt root q = Some c
                   \<and> (isRootNamespace c \<or> isPackageBody c)
                   \<and> j < length (elements c) \<and> isOwningMembership (elements c ! j)
                   \<and> element (elements c ! j) = Some e \<and> getElementName e = Some n \<and> n \<noteq> []
                   \<and> d = \<lparr>dname = n, dtype = ntype e, dpath = q @ [j]\<rparr>))"
    by (intro initial_scope_locals) simp_all
next
  assume "(index ctx = None \<or> index ctx = Some 0) \<and> \<not> isRootNamespace root"
  then show "getQualifiedNameScope allElements root ctx = []"
    by (auto simp: getQualifiedNameScope_def getInitialScope_def)
qed

text \<open>The theorem in the document of the test: at the second part of \<^verbatim>\<open>Outer::X\<close>, at
  the name \<open>X\<close> referred to from \<open>RefInner\<close>, where the local descriptions hold the \<open>X\<close> of
  \<open>Inner\<close> and the package \<open>Outer\<close>, and for a document whose root is a part definition.\<close>

theorem nested_scope_entries_witness:
  "index \<lparr>names = [''Outer'', ''X''], index = Some 1, position = [0, 1, 1]\<rparr> = Some 1
   \<and> (0 :: nat) < 1
   \<and> getQualifiedNameScope (computeExports shadowingDocument) shadowingDocument
       \<lparr>names = [''Outer'', ''X''], index = Some 1, position = [0, 1, 1]\<rparr>
     = map (\<lambda>d. d\<lparr>dname := drop (length (''Outer'' @ ''::'')) (dname d)\<rparr>)
         (filter (\<lambda>d. \<exists>r. dname d = ''Outer'' @ ''::'' @ r \<and> \<not> (\<exists>u v. r = u @ ''::'' @ v))
            (computeExports shadowingDocument))
   \<and> getQualifiedNameScope (computeExports shadowingDocument) shadowingDocument
       \<lparr>names = [''Outer'', ''X''], index = Some 1, position = [0, 1, 1]\<rparr>
     = [\<lparr>dname = ''X'', dtype = ''PartDefinition'', dpath = [0, 0]\<rparr>,
        \<lparr>dname = ''Inner'', dtype = ''PackageBody'', dpath = [0, 1]\<rparr>]
   \<and> index \<lparr>names = [''X''], index = Some 0, position = [0, 1, 2]\<rparr> = Some 0
   \<and> isRootNamespace shadowingDocument
   \<and> (\<exists>locals. getQualifiedNameScope (computeExports shadowingDocument) shadowingDocument
           \<lparr>names = [''X''], index = Some 0, position = [0, 1, 2]\<rparr>
         = computeExports shadowingDocument @ locals
       \<and> \<lparr>dname = ''X'', dtype = ''PartDefinition'', dpath = [0, 1, 0]\<rparr> \<in> set locals
       \<and> \<lparr>dname = ''Outer'', dtype = ''PackageBody'', dpath = [0]\<rparr> \<in> set locals)
   \<and> getQualifiedNameScope (computeExports shadowingDocument) shadowingDocument
       \<lparr>names = [''X''], index = Some 0, position = [0, 1, 2]\<rparr>
     = computeExports shadowingDocument
       @ [\<lparr>dname = ''X'', dtype = ''PartDefinition'', dpath = [0, 1, 0]\<rparr>,
          \<lparr>dname = ''RefOuter'', dtype = ''PartDefinition'', dpath = [0, 1, 1]\<rparr>,
          \<lparr>dname = ''RefInner'', dtype = ''PartDefinition'', dpath = [0, 1, 2]\<rparr>,
          \<lparr>dname = ''X'', dtype = ''PartDefinition'', dpath = [0, 0]\<rparr>,
          \<lparr>dname = ''Inner'', dtype = ''PackageBody'', dpath = [0, 1]\<rparr>,
          \<lparr>dname = ''Outer'', dtype = ''PackageBody'', dpath = [0]\<rparr>]
   \<and> index \<lparr>names = [''X''], index = None, position = []\<rparr> = None
   \<and> \<not> isRootNamespace (named ''PartDefinition'' ''X'')
   \<and> computeExports shadowingDocument \<noteq> []
   \<and> getQualifiedNameScope (computeExports shadowingDocument) (named ''PartDefinition'' ''X'')
       \<lparr>names = [''X''], index = None, position = []\<rparr> = []"
proof -
  let ?ctx1 = "\<lparr>names = [''Outer'', ''X''], index = Some 1, position = [0, 1, 1]\<rparr>"
  let ?ctx0 = "\<lparr>names = [''X''], index = Some 0, position = [0, 1, 2]\<rparr>"
  let ?inner = "parent ''PackageBody'' (Some ''Inner'')
             [owning (named ''PartDefinition'' ''X''),
              owning (specializing ''PartDefinition'' ''RefOuter'' [''Outer'', ''X'']),
              owning (specializing ''PartDefinition'' ''RefInner'' [''X''])]"
  let ?outer = "parent ''PackageBody'' (Some ''Outer'')
          [owning (named ''PartDefinition'' ''X''), owning ?inner]"
  have e1: "getQualifiedNameScope (computeExports shadowingDocument) shadowingDocument ?ctx1
     = [\<lparr>dname = ''X'', dtype = ''PartDefinition'', dpath = [0, 0]\<rparr>,
        \<lparr>dname = ''Inner'', dtype = ''PackageBody'', dpath = [0, 1]\<rparr>]"
    by code_simp
  have e0: "getQualifiedNameScope (computeExports shadowingDocument) shadowingDocument ?ctx0
     = computeExports shadowingDocument
       @ [\<lparr>dname = ''X'', dtype = ''PartDefinition'', dpath = [0, 1, 0]\<rparr>,
          \<lparr>dname = ''RefOuter'', dtype = ''PartDefinition'', dpath = [0, 1, 1]\<rparr>,
          \<lparr>dname = ''RefInner'', dtype = ''PartDefinition'', dpath = [0, 1, 2]\<rparr>,
          \<lparr>dname = ''X'', dtype = ''PartDefinition'', dpath = [0, 0]\<rparr>,
          \<lparr>dname = ''Inner'', dtype = ''PackageBody'', dpath = [0, 1]\<rparr>,
          \<lparr>dname = ''Outer'', dtype = ''PackageBody'', dpath = [0]\<rparr>]"
    by code_simp
  have r: "isRootNamespace shadowingDocument"
    by code_simp
  have nr: "\<not> isRootNamespace (named ''PartDefinition'' ''X'')"
    by code_simp
  have ne: "computeExports shadowingDocument \<noteq> []"
    by code_simp
  have inner: "nodeAt shadowingDocument [0, 1] = Some ?inner"
      "isPackageBody ?inner" "(0 :: nat) < length (elements ?inner)"
      "isOwningMembership (elements ?inner ! 0)"
      "element (elements ?inner ! 0) = Some (named ''PartDefinition'' ''X'')"
      "getElementName (named ''PartDefinition'' ''X'') = Some ''X''"
      "ntype (named ''PartDefinition'' ''X'') = ''PartDefinition''"
    by code_simp+
  have outer: "nodeAt shadowingDocument [] = Some shadowingDocument"
      "(0 :: nat) < length (elements shadowingDocument)"
      "isOwningMembership (elements shadowingDocument ! 0)"
      "element (elements shadowingDocument ! 0) = Some ?outer"
      "getElementName ?outer = Some ''Outer''"
      "ntype ?outer = ''PackageBody''"
    by code_simp+
  note inst = nested_scope_entries [of ?ctx1 1 "computeExports shadowingDocument" shadowingDocument]
    nested_scope_entries [of ?ctx0 0 "computeExports shadowingDocument" shadowingDocument]
    nested_scope_entries [of "\<lparr>names = [''X''], index = None, position = []\<rparr>" 0
      "computeExports shadowingDocument" "named ''PartDefinition'' ''X''"]
  from inst(3) nr
  have n0: "getQualifiedNameScope (computeExports shadowingDocument) (named ''PartDefinition'' ''X'')
       \<lparr>names = [''X''], index = None, position = []\<rparr> = []"
    by simp
  from inst(1) have n1: "getQualifiedNameScope (computeExports shadowingDocument) shadowingDocument ?ctx1
     = map (\<lambda>d. d\<lparr>dname := drop (length (''Outer'' @ ''::'')) (dname d)\<rparr>)
         (filter (\<lambda>d. \<exists>r. dname d = ''Outer'' @ ''::'' @ r \<and> \<not> (\<exists>u v. r = u @ ''::'' @ v))
            (computeExports shadowingDocument))"
    by simp
  from inst(2) r obtain locals
    where l: "getQualifiedNameScope (computeExports shadowingDocument) shadowingDocument ?ctx0
                = computeExports shadowingDocument @ locals"
      and m: "\<And>d. d \<in> set locals =
                (\<exists>q c j e n. prefix q (position ?ctx0) \<and> nodeAt shadowingDocument q = Some c
                   \<and> (isRootNamespace c \<or> isPackageBody c)
                   \<and> j < length (elements c) \<and> isOwningMembership (elements c ! j)
                   \<and> element (elements c ! j) = Some e \<and> getElementName e = Some n \<and> n \<noteq> []
                   \<and> d = \<lparr>dname = n, dtype = ntype e, dpath = q @ [j]\<rparr>)"
    by auto
  have x: "\<lparr>dname = ''X'', dtype = ''PartDefinition'', dpath = [0, 1, 0]\<rparr> \<in> set locals"
    unfolding m
    by (rule exI [of _ "[0, 1]"], rule exI [of _ ?inner], rule exI [of _ 0],
        rule exI [of _ "named ''PartDefinition'' ''X''"], rule exI [of _ "''X''"])
       (use inner in simp)
  have o: "\<lparr>dname = ''Outer'', dtype = ''PackageBody'', dpath = [0]\<rparr> \<in> set locals"
    unfolding m
    by (rule exI [of _ "[]"], rule exI [of _ shadowingDocument], rule exI [of _ 0],
        rule exI [of _ ?outer], rule exI [of _ "''Outer''"])
       (use outer r in simp)
  from l x o have "\<exists>locals. getQualifiedNameScope (computeExports shadowingDocument) shadowingDocument ?ctx0
         = computeExports shadowingDocument @ locals
       \<and> \<lparr>dname = ''X'', dtype = ''PartDefinition'', dpath = [0, 1, 0]\<rparr> \<in> set locals
       \<and> \<lparr>dname = ''Outer'', dtype = ''PackageBody'', dpath = [0]\<rparr> \<in> set locals"
    by blast
  with n1 e1 e0 r nr ne n0 show ?thesis by simp
qed

text \<open>
  Claim C3. In the document of the test, from the definition \<open>RefInner\<close> inside \<open>Inner\<close>,
  the name \<open>X\<close> is answered with the element \<open>X\<close> of \<open>Outer\<close>, at the position \<open>[0, 0]\<close>, and
  not with the element \<open>X\<close> of \<open>Inner\<close>, at \<open>[0, 1, 0]\<close>: the entries of the index come
  first in the scope, the local ones after them, the innermost first, so the element of
  \<open>Outer\<close> is both the first and the last entry of the name. The second part of
  \<^verbatim>\<open>Outer::X\<close> is answered with the element of \<open>Outer\<close>.
\<close>

theorem shadowed_name_resolves_to_outer:
  "getElement (getQualifiedNameScope (computeExports shadowingDocument) shadowingDocument
       \<lparr>names = [''X''], index = Some 0, position = [0, 1, 2]\<rparr>) ''X''
     = Some \<lparr>dname = ''X'', dtype = ''PartDefinition'', dpath = [0, 0]\<rparr>
   \<and> map dpath (filter (\<lambda>d. dname d = ''X'')
        (getQualifiedNameScope (computeExports shadowingDocument) shadowingDocument
           \<lparr>names = [''X''], index = Some 0, position = [0, 1, 2]\<rparr>))
     = [[0, 0], [0, 1, 0], [0, 1, 0], [0, 0]]
   \<and> nodeAt shadowingDocument [0, 1, 0] = Some (named ''PartDefinition'' ''X'')
   \<and> map (\<lambda>p. map_option ntype (nodeAt shadowingDocument p)) [[0], [0, 1], [0, 1, 2]]
     = [Some ''PackageBody'', Some ''PackageBody'', Some ''PartDefinition'']
   \<and> getElement (getQualifiedNameScope (computeExports shadowingDocument) shadowingDocument
       \<lparr>names = [''Outer'', ''X''], index = Some 1, position = [0, 1, 1]\<rparr>) ''X''
     = Some \<lparr>dname = ''X'', dtype = ''PartDefinition'', dpath = [0, 0]\<rparr>"
  by code_simp

end
